theory Spec2Isabelle
  imports Main "HOL-Library.Code_Target_Nat"
begin

section \<open>Values of the Go runtime and of the client libraries\<close>

text \<open>
  A Go \<open>error\<close> is \<open>nil\<close> or an error value: \<open>error option\<close>, with \<open>None\<close> for
  \<open>nil\<close>. \<open>errors.New\<close> allocates a new value on every call, so an error made by this
  package is never the same value as one handed back by a collaborator (go-git, go-github,
  the filesystem, the caller's callback): the two kinds are two constructors.
\<close>

datatype error = errors_New string | Foreign string

text \<open>A call either returns or panics (nil dereference, index out of range).\<close>

datatype 'a go = Returns 'a | Panics

text \<open>
  \<open>time.Time\<close>: an instant (nanoseconds since the zero time, January 1 of year 1 UTC) and a
  location. \<open>Equal\<close> compares the instants only; \<open>time.Time{}\<close> is the zero instant in UTC.
\<close>

record Time =
  instant :: int
  location :: string

definition zeroTime :: Time where
  "zeroTime = \<lparr>instant = 0, location = ''UTC''\<rparr>"

definition Time_Equal :: "Time \<Rightarrow> Time \<Rightarrow> bool" where
  "Time_Equal t u = (instant t = instant u)"

text \<open>\<open>object.Signature\<close> of go-git, the author of a commit.\<close>

record Signature =
  Name :: string
  Email :: string
  When :: Time

record Credentials =
  Username :: string
  Token :: string

text \<open>\<open>http.BasicAuth\<close> of go-git.\<close>

record BasicAuth =
  auth_Username :: string
  auth_Password :: string

text \<open>
  The go-github values the package reads. Every field read is a pointer there, so it is
  optional here; \<open>GetContext\<close> and \<open>GetState\<close> are the library's accessors, which give
  the empty string for a nil entry or a nil field.
\<close>

record RepoStatus =
  status_Context :: "string option"
  status_State :: "string option"

definition GetContext :: "RepoStatus option \<Rightarrow> string" where
  "GetContext s = (case s of None \<Rightarrow> [] | Some r \<Rightarrow> (case status_Context r of None \<Rightarrow> [] | Some c \<Rightarrow> c))"

definition GetState :: "RepoStatus option \<Rightarrow> string" where
  "GetState s = (case s of None \<Rightarrow> [] | Some r \<Rightarrow> (case status_State r of None \<Rightarrow> [] | Some c \<Rightarrow> c))"

record PullRequestBranch =
  branch_SHA :: "string option"

record PullRequest =
  pr_Number :: "int option"
  pr_Mergeable :: "bool option"
  pr_Head :: "PullRequestBranch option"

record PullRequestMergeResult =
  merge_SHA :: "string option"

type_synonym hash = string
type_synonym repository = nat
type_synonym worktree = nat

text \<open>
  \<open>UpdateFunc\<close>: the caller's callback. Its changes to the worktree are opaque to the
  package; what the package reads is the triple it returns.
\<close>

type_synonym UpdateFunc = "worktree \<Rightarrow> string \<times> Signature option \<times> error option"

section \<open>The collaborators\<close>

text \<open>
  One answer of \<open>Repositories.ListStatuses\<close> (the statuses, nil or a slice of pointers, and the
  error), together with the time in nanoseconds the request took. A feed gives the answer
  to the first, second, ... request of one wait.
\<close>

type_synonym poll = "RepoStatus option list option \<times> error option"
type_synonym feed = "nat \<Rightarrow> nat \<times> poll"

text \<open>
  What the world answers at every call site of the package, for one call of a method.
  The comment on each field is the line of \<open>ghpr.go\<close> that makes the call.
  \<open>fmt_Sprintf\<close> is \<open>fmt.Sprintf\<close> on a format without operands (line 123, where the
  format is built from owner and repo and may hold verbs); it is kept uninterpreted.
\<close>

record world =
  fmt_Sprintf :: "string \<Rightarrow> string"
  util_TempDir :: "error + string"                      \<comment> \<open>95\<close>
  fs_ChrootTemp :: "error option"                       \<comment> \<open>100\<close>
  fs_ChrootGit :: "error option"                        \<comment> \<open>125\<close>
  git_Clone :: "repository option \<times> error option"       \<comment> \<open>131\<close>
  repo_Head :: "error + hash"                           \<comment> \<open>149\<close>
  storer_SetBranchRef :: "error option"                 \<comment> \<open>156\<close>
  repo_Worktree :: "error + worktree"                   \<comment> \<open>161\<close>
  worktree_Checkout :: "error option"                   \<comment> \<open>166\<close>
  time_Now :: Time                                      \<comment> \<open>175\<close>
  worktree_Commit :: "error + hash"                     \<comment> \<open>178\<close>
  storer_SetRemoteRef :: "error option"                 \<comment> \<open>185\<close>
  repo_Push :: "error option"                           \<comment> \<open>190\<close>
  pulls_Create :: "error + PullRequest"                 \<comment> \<open>198\<close>
  pulls_GetHead :: "error + PullRequest"                \<comment> \<open>259\<close>
  statuses_Head :: feed                                 \<comment> \<open>220, called from 265\<close>
  pulls_GetMergeable :: "error + PullRequest"           \<comment> \<open>272\<close>
  pulls_Merge :: "error + PullRequestMergeResult"       \<comment> \<open>278\<close>
  statuses_Merge :: feed                                \<comment> \<open>220, called from 293\<close>
  select_tie :: bool                                    \<comment> \<open>248\<close>
  os_RemoveAll :: "error option"                        \<comment> \<open>298\<close>

text \<open>
  The calls a method makes on its collaborators, in order, with their arguments. The merge
  request is logged with the answer it got.
\<close>

datatype event =
    EvTempDir string string
  | EvChroot string
  | EvClone string nat BasicAuth
  | EvHead
  | EvSetReference string hash
  | EvWorktree
  | EvCheckout string
  | EvUpdateFunc worktree
  | EvCommit string Signature
  | EvPush BasicAuth
  | EvPRCreate string string string string string string
  | EvPRGet string string int
  | EvListStatuses string string string nat
  | EvPRMerge string string int string string "error + PullRequestMergeResult"
  | EvRemoveAll string

section \<open>The package\<close>

text \<open>
  \<open>GithubPR\<close>. The fields \<open>git\<close> and \<open>gitHubClient\<close> are the collaborators (the
  \<open>world\<close>); \<open>filesystem\<close> is the root of the chroot-ed filesystem; \<open>gitRepo\<close> is nil
  until \<open>Clone\<close> stores a repository.
\<close>

record GithubPR =
  auth :: BasicAuth
  filesystem :: string
  mergeSHA :: string
  path :: string
  pr :: int
  gitRepo :: "repository option"
  owner :: string
  repo :: string

subsection \<open>The repository name\<close>

text \<open>
  The regular expressions the package needs: a literal byte, a negated one-byte class,
  concatenation and \<open>+\<close>. \<open>rmatch r s\<close> holds when \<open>r\<close> matches the whole of \<open>s\<close>, which
  is what \<open>^\<close> and \<open>$\<close> ask of \<open>regexp.MatchString\<close> (in Go \<open>$\<close> is the end of the text
  and a negated class matches a newline). Go matches runes, not bytes; \<open>/\<close> is never part of
  a longer UTF-8 sequence and every rune of a class is under \<open>+\<close>, so for these patterns
  matching bytes gives the same answer.
\<close>

datatype regex = Lit char | NotLit char | Seq regex regex | Plus regex

function plusm :: "(string \<Rightarrow> bool) \<Rightarrow> string \<Rightarrow> bool" where
  "plusm p s = (p s \<or> (\<exists>k \<in> {1..<length s}. p (take k s) \<and> plusm p (drop k s)))"
  by pat_completeness auto
termination
  by (relation "measure (\<lambda>(p, s). length s)") auto

declare plusm.simps [simp del]

primrec rmatch :: "regex \<Rightarrow> string \<Rightarrow> bool" where
  "rmatch (Lit c) = (\<lambda>s. s = [c])"
| "rmatch (NotLit c) = (\<lambda>s. case s of [x] \<Rightarrow> x \<noteq> c | _ \<Rightarrow> False)"
| "rmatch (Seq a b) = (\<lambda>s. \<exists>k \<in> {0..length s}. rmatch a (take k s) \<and> rmatch b (drop k s))"
| "rmatch (Plus a) = plusm (rmatch a)"

text \<open>The pattern of line 84, \<open>^[^/]+/[^/]+$\<close>. It compiles, so \<open>MatchString\<close> returns no error.\<close>

definition repoNamePattern :: regex where
  "repoNamePattern = Seq (Plus (NotLit CHR ''/'')) (Seq (Lit CHR ''/'') (Plus (NotLit CHR ''/'')))"

definition MatchString :: "regex \<Rightarrow> string \<Rightarrow> bool" where
  "MatchString r s = rmatch r s"

text \<open>\<open>strings.Split\<close> with a separator of one byte.\<close>

fun Split :: "string \<Rightarrow> char \<Rightarrow> string list" where
  "Split [] sep = [[]]"
| "Split (c # cs) sep =
     (if c = sep then [] # Split cs sep
      else (case Split cs sep of [] \<Rightarrow> [[c]] | p # ps \<Rightarrow> (c # p) # ps))"

text \<open>Indexing a slice panics out of range.\<close>

definition index :: "'a list \<Rightarrow> nat \<Rightarrow> 'a go" where
  "index xs i = (if i < length xs then Returns (xs ! i) else Panics)"

definition makeGithubPR ::
  "world \<Rightarrow> string \<Rightarrow> Credentials \<Rightarrow> (error + GithubPR) go \<times> event list" where
  "makeGithubPR w repoName creds =
     (if \<not> MatchString repoNamePattern repoName
      then (Returns (Inl (errors_New ''invalid repository name supplied'')), [])
      else
        (case index (Split repoName CHR ''/'') 0 of
           Panics \<Rightarrow> (Panics, [])
         | Returns owner' \<Rightarrow>
        (case index (Split repoName CHR ''/'') 1 of
           Panics \<Rightarrow> (Panics, [])
         | Returns repo' \<Rightarrow>
        (case util_TempDir w of
           Inl e \<Rightarrow> (Returns (Inl e), [EvTempDir ''.'' ''repo_''])
         | Inr tempDir \<Rightarrow>
        (case fs_ChrootTemp w of
           Some e \<Rightarrow> (Returns (Inl e), [EvTempDir ''.'' ''repo_'', EvChroot tempDir])
         | None \<Rightarrow>
             (Returns (Inr \<lparr>auth = \<lparr>auth_Username = Username creds, auth_Password = Token creds\<rparr>,
                            filesystem = tempDir,
                            mergeSHA = [],
                            path = tempDir,
                            pr = 0,
                            gitRepo = None,
                            owner = owner',
                            repo = repo'\<rparr>),
              [EvTempDir ''.'' ''repo_'', EvChroot tempDir]))))))"

subsection \<open>Clone and PushCommit\<close>

type_synonym result = "error option go \<times> GithubPR \<times> event list"

definition Clone :: "world \<Rightarrow> GithubPR \<Rightarrow> result" where
  "Clone w g =
     (let url = fmt_Sprintf w (''https://github.com/'' @ owner g @ ''/'' @ repo g) in
      case fs_ChrootGit w of
        Some e \<Rightarrow> (Returns (Some e), g, [EvChroot ''.git''])
      | None \<Rightarrow>
          (case git_Clone w of
             (r, err) \<Rightarrow>
               (Returns err, g\<lparr>gitRepo := r\<rparr>, [EvChroot ''.git'', EvClone url 1 (auth g)])))"

text \<open>
  \<open>PushCommit\<close>, lines 148 to 194. A nil \<open>gitRepo\<close> panics at \<open>Head\<close>; the value
  \<open>Checkout\<close> returns (line 166) is not assigned, so \<open>worktree_Checkout\<close> is read nowhere;
  a callback that returns neither an error nor a signature panics at \<open>author.When\<close>.
\<close>

definition PushCommit :: "world \<Rightarrow> string \<Rightarrow> UpdateFunc \<Rightarrow> GithubPR \<Rightarrow> result" where
  "PushCommit w branchName fn g =
     (case gitRepo g of
        None \<Rightarrow> (Panics, g, [])
      | Some r \<Rightarrow>
     (case repo_Head w of
        Inl e \<Rightarrow> (Returns (Some e), g, [EvHead])
      | Inr headHash \<Rightarrow>
     (let t1 = [EvHead, EvSetReference (''refs/heads/'' @ branchName) headHash] in
      case storer_SetBranchRef w of
        Some e \<Rightarrow> (Returns (Some e), g, t1)
      | None \<Rightarrow>
     (case repo_Worktree w of
        Inl e \<Rightarrow> (Returns (Some e), g, t1 @ [EvWorktree])
      | Inr wt \<Rightarrow>
     (let t2 = t1 @ [EvWorktree, EvCheckout (''refs/heads/'' @ branchName), EvUpdateFunc wt] in
      case fn wt of
        (commitMessage, author, Some e) \<Rightarrow> (Returns (Some e), g, t2)
      | (commitMessage, None, None) \<Rightarrow> (Panics, g, t2)
      | (commitMessage, Some a, None) \<Rightarrow>
     (let author = (if Time_Equal (When a) zeroTime then a\<lparr>When := time_Now w\<rparr> else a);
          t3 = t2 @ [EvCommit commitMessage author] in
      case worktree_Commit w of
        Inl e \<Rightarrow> (Returns (Some e), g, t3)
      | Inr commitHash \<Rightarrow>
     (let t4 = t3 @ [EvSetReference (''refs/remotes/origin/'' @ branchName) headHash] in
      case storer_SetRemoteRef w of
        Some e \<Rightarrow> (Returns (Some e), g, t4)
      | None \<Rightarrow> (Returns (repo_Push w), g, t4 @ [EvPush (auth g)]))))))))"

subsection \<open>RaisePR\<close>

definition RaisePR :: "world \<Rightarrow> string \<Rightarrow> string \<Rightarrow> string \<Rightarrow> string \<Rightarrow> GithubPR \<Rightarrow> result" where
  "RaisePR w sourceBranch targetBranch title body g =
     (let t = [EvPRCreate (owner g) (repo g) title sourceBranch targetBranch body] in
      case pulls_Create w of
        Inl e \<Rightarrow> (Returns (Some e), g, t)
      | Inr p \<Rightarrow>
          (case pr_Number p of
             None \<Rightarrow> (Panics, g, t)
           | Some n \<Rightarrow> (Returns None, g\<lparr>pr := n\<rparr>, t)))"

subsection \<open>waitForStatus\<close>

text \<open>The two errors \<open>waitForStatus\<close> makes (lines 239 and 252).\<close>

definition errStatusFailed :: error where
  "errStatusFailed = errors_New ''target status check is in a failed state, aborting''"

definition errTimedOut :: error where
  "errTimedOut = errors_New ''timed out waiting for PR to become mergeable''"

text \<open>
  What one pass of the polling loop does with the answer to its request: it sends a result
  on the channel and stops (\<open>Resolved\<close>), or goes round again.
\<close>

datatype verdict = Resolved "error option" | KeepPolling

text \<open>The \<open>for\<close> loop over the statuses, lines 229 to 243.\<close>

fun scanStatuses :: "RepoStatus option list \<Rightarrow> string \<Rightarrow> verdict" where
  "scanStatuses [] statusContext = KeepPolling"
| "scanStatuses (s # ss) statusContext =
     (if GetContext s = statusContext then
        (if GetState s = ''success'' then Resolved None
         else if GetState s = ''failure'' \<or> GetState s = ''error'' then Resolved (Some errStatusFailed)
         else scanStatuses ss statusContext)
      else scanStatuses ss statusContext)"

text \<open>Lines 223 to 244.\<close>

definition classify :: "poll \<Rightarrow> string \<Rightarrow> verdict" where
  "classify p statusContext =
     (case p of
        (statuses, Some err) \<Rightarrow> Resolved (Some err)
      | (None, None) \<Rightarrow> KeepPolling
      | (Some ss, None) \<Rightarrow> scanStatuses ss statusContext)"

text \<open>\<open>time.Second * 2\<close> and \<open>60 * time.Minute\<close>, in nanoseconds as \<open>time.Duration\<close> is.\<close>

definition pollInterval :: nat where
  "pollInterval = 2 * 1000000000"

definition deadline :: nat where
  "deadline = 60 * (60 * 1000000000)"

text \<open>
  The goroutine and the \<open>select\<close>, with time made explicit. \<open>elapsed\<close> is the time since
  the wait began at which the goroutine starts its pass number \<open>i\<close>: it sleeps for
  \<open>pollInterval\<close>, and the answer to its request is there after the request's own time.
  An answer that comes after the deadline is never looked at: the timer has fired and
  \<open>waitForStatus\<close> has returned the timeout error. A result sent before the deadline is what
  \<open>select\<close> receives. When the result is sent at the very instant the timer fires, both cases
  of the \<open>select\<close> are ready and Go takes either: \<open>tie\<close> says whether it takes the result.
  The second component counts the requests made before \<open>waitForStatus\<close> returns: those
  answered by the deadline, and the one made before the deadline whose answer comes after it.
  What the abandoned goroutine asks after \<open>waitForStatus\<close> has returned is not counted.
\<close>

function pollLoop :: "feed \<Rightarrow> bool \<Rightarrow> string \<Rightarrow> nat \<Rightarrow> nat \<Rightarrow> error option \<times> nat" where
  "pollLoop fd tie statusContext i elapsed =
     (if deadline < elapsed + pollInterval + fst (fd i)
      then (Some errTimedOut, if elapsed + pollInterval < deadline then 1 else 0)
      else
        (case classify (snd (fd i)) statusContext of
           Resolved r \<Rightarrow>
             (if elapsed + pollInterval + fst (fd i) < deadline \<or> tie then (r, 1)
              else (Some errTimedOut, 1))
         | KeepPolling \<Rightarrow>
             (case pollLoop fd tie statusContext (Suc i) (elapsed + pollInterval + fst (fd i)) of
                (r, n) \<Rightarrow> (r, Suc n))))"
  by pat_completeness auto
termination
  by (relation "measure (\<lambda>(fd, tie, statusContext, i, elapsed). Suc deadline - elapsed)")
     (auto simp: pollInterval_def)

declare pollLoop.simps [simp del]

definition waitForStatus ::
  "feed \<Rightarrow> bool \<Rightarrow> string \<Rightarrow> string \<Rightarrow> string \<Rightarrow> string \<Rightarrow> error option \<times> event list" where
  "waitForStatus fd tie shaRef owner' repo' statusContext =
     (case pollLoop fd tie statusContext 0 0 of
        (r, n) \<Rightarrow> (r, replicate n (EvListStatuses owner' repo' shaRef 20)))"

definition WaitForPR :: "world \<Rightarrow> string \<Rightarrow> GithubPR \<Rightarrow> result" where
  "WaitForPR w statusContext g =
     (let t = [EvPRGet (owner g) (repo g) (pr g)] in
      case pulls_GetHead w of
        Inl e \<Rightarrow> (Returns (Some e), g, t)
      | Inr p \<Rightarrow>
          (case pr_Head p of
             None \<Rightarrow> (Panics, g, t)
           | Some b \<Rightarrow>
               (case branch_SHA b of
                  None \<Rightarrow> (Panics, g, t)
                | Some sha \<Rightarrow>
                    (case waitForStatus (statuses_Head w) (select_tie w) sha (owner g) (repo g)
                            statusContext of
                       (r, ts) \<Rightarrow> (Returns r, g, t @ ts)))))"

text \<open>
  Reading a page: a state is terminal when it ends the wait; the entry that decides a page is
  the first one, in the order of the page, that has the requested context and a terminal
  state.
\<close>

definition terminal :: "string \<Rightarrow> bool" where
  "terminal st = (st = ''success'' \<or> st = ''failure'' \<or> st = ''error'')"

definition decisive :: "RepoStatus option list \<Rightarrow> string \<Rightarrow> RepoStatus option option" where
  "decisive ss statusContext =
     find (\<lambda>s. GetContext s = statusContext \<and> terminal (GetState s)) ss"

text \<open>
  The tie-break as the specification words it, to compare with \<open>scanStatuses\<close>: the first
  entry with the requested context decides, whatever its state.
\<close>

definition firstMatchVerdict :: "RepoStatus option list \<Rightarrow> string \<Rightarrow> verdict" where
  "firstMatchVerdict ss statusContext =
     (case find (\<lambda>s. GetContext s = statusContext) ss of
        None \<Rightarrow> KeepPolling
      | Some s \<Rightarrow>
          (if GetState s = ''success'' then Resolved None
           else if GetState s = ''failure'' \<or> GetState s = ''error''
             then Resolved (Some errStatusFailed)
           else KeepPolling))"

text \<open>
  The time at which the goroutine starts its pass number \<open>i\<close>, and the time at which the
  answer to its request number \<open>i\<close> is there, when no pass before has ended the loop.
\<close>

fun startOf :: "feed \<Rightarrow> nat \<Rightarrow> nat" where
  "startOf fd 0 = 0"
| "startOf fd (Suc i) = startOf fd i + pollInterval + fst (fd i)"

definition arrival :: "feed \<Rightarrow> nat \<Rightarrow> nat" where
  "arrival fd i = startOf fd (Suc i)"

subsection \<open>MergePR, WaitForMergeCommit, Close\<close>

definition errNotMergeable :: error where
  "errNotMergeable = errors_New ''PR is not mergeable''"

definition MergePR :: "world \<Rightarrow> GithubPR \<Rightarrow> result" where
  "MergePR w g =
     (let t = [EvPRGet (owner g) (repo g) (pr g)] in
      case pulls_GetMergeable w of
        Inl e \<Rightarrow> (Returns (Some e), g, t)
      | Inr p \<Rightarrow>
          (if pr_Mergeable p \<noteq> None \<and> the (pr_Mergeable p) then
             (case pr_Number p of
                None \<Rightarrow> (Panics, g, t)
              | Some n \<Rightarrow>
                  (let t' = t @ [EvPRMerge (owner g) (repo g) n [] ''merge'' (pulls_Merge w)] in
                   case pulls_Merge w of
                     Inl e \<Rightarrow> (Returns (Some e), g, t')
                   | Inr m \<Rightarrow>
                       (case merge_SHA m of
                          None \<Rightarrow> (Panics, g, t')
                        | Some sha \<Rightarrow> (Returns None, g\<lparr>mergeSHA := sha\<rparr>, t'))))
           else (Returns (Some errNotMergeable), g, t)))"

definition WaitForMergeCommit :: "world \<Rightarrow> string \<Rightarrow> GithubPR \<Rightarrow> result" where
  "WaitForMergeCommit w statusContext g =
     (case waitForStatus (statuses_Merge w) (select_tie w) (mergeSHA g) (owner g) (repo g)
             statusContext of
        (r, ts) \<Rightarrow> (Returns r, g, ts))"

definition Close :: "world \<Rightarrow> GithubPR \<Rightarrow> result" where
  "Close w g = (Returns (os_RemoveAll w), g, [EvRemoveAll (path g)])"

subsection \<open>Create\<close>

text \<open>
  \<open>err = step(); if err != nil { return err }\<close>: the next step runs only when the one
  before returned nil; an error or a panic ends the sequence.
\<close>

definition andThen :: "result \<Rightarrow> (GithubPR \<Rightarrow> result) \<Rightarrow> result" where
  "andThen x step =
     (case x of
        (Returns None, g, t) \<Rightarrow> (case step g of (r, g', t') \<Rightarrow> (r, g', t @ t'))
      | _ \<Rightarrow> x)"

text \<open>
  \<open>Create\<close>, lines 301 to 330. \<open>defer ghpr.Close()\<close> stands right after the call of
  \<open>Clone\<close> and before its error is looked at, so \<open>Close\<close> runs when \<open>Create\<close> leaves,
  whatever the way; what \<open>Close\<close> returns is dropped.
\<close>

definition Create ::
  "world \<Rightarrow> string \<Rightarrow> string \<Rightarrow> string \<Rightarrow> string \<Rightarrow> UpdateFunc \<Rightarrow> GithubPR \<Rightarrow> result" where
  "Create w branchName targetBranch prStatusContext masterStatusContext fn g =
     (case andThen (andThen (andThen (andThen (andThen
             (Clone w g)
             (PushCommit w branchName fn))
             (RaisePR w branchName targetBranch ''test'' []))
             (WaitForPR w prStatusContext))
             (MergePR w))
             (WaitForMergeCommit w masterStatusContext) of
        (r, g', t) \<Rightarrow> (case Close w g' of (rc, g'', tc) \<Rightarrow> (r, g'', t @ tc)))"

subsection \<open>Sequences of calls on one instance\<close>

datatype call =
    CallClone
  | CallPushCommit string UpdateFunc
  | CallRaisePR string string string string
  | CallWaitForPR string
  | CallMergePR
  | CallWaitForMergeCommit string
  | CallClose
  | CallCreate string string string string UpdateFunc

fun exec :: "call \<Rightarrow> world \<Rightarrow> GithubPR \<Rightarrow> result" where
  "exec CallClone w g = Clone w g"
| "exec (CallPushCommit b fn) w g = PushCommit w b fn g"
| "exec (CallRaisePR s t title body) w g = RaisePR w s t title body g"
| "exec (CallWaitForPR c) w g = WaitForPR w c g"
| "exec CallMergePR w g = MergePR w g"
| "exec (CallWaitForMergeCommit c) w g = WaitForMergeCommit w c g"
| "exec CallClose w g = Close w g"
| "exec (CallCreate b t c1 c2 fn) w g = Create w b t c1 c2 fn g"

text \<open>
  A sequence of calls, each with the answers the world gives during it; the instance after
  the last call, and everything that was asked of the collaborators.
\<close>

fun run :: "(call \<times> world) list \<Rightarrow> GithubPR \<Rightarrow> GithubPR \<times> event list" where
  "run [] g = (g, [])"
| "run ((c, w) # cs) g =
     (case exec c w g of
        (r, g', t) \<Rightarrow> (case run cs g' of (g'', t') \<Rightarrow> (g'', t @ t')))"

subsection \<open>Reading a trace\<close>

definition outcome :: "result \<Rightarrow> error option go" where
  "outcome x = fst x"

definition after :: "result \<Rightarrow> GithubPR" where
  "after x = fst (snd x)"

definition trace :: "result \<Rightarrow> event list" where
  "trace x = snd (snd x)"

fun isCommit :: "event \<Rightarrow> bool" where
  "isCommit (EvCommit m a) = True"
| "isCommit ev = False"

fun isPush :: "event \<Rightarrow> bool" where
  "isPush (EvPush a) = True"
| "isPush ev = False"

fun isPRCreate :: "event \<Rightarrow> bool" where
  "isPRCreate (EvPRCreate ow re title hd' base body) = True"
| "isPRCreate ev = False"

fun isPRMerge :: "event \<Rightarrow> bool" where
  "isPRMerge (EvPRMerge ow re n msg method' answer) = True"
| "isPRMerge ev = False"

text \<open>
  The merge commit a trace records: the SHA in the answer to the last merge request that
  was answered with one, if there is such a request.
\<close>

fun mergedSHA :: "event \<Rightarrow> string option" where
  "mergedSHA (EvPRMerge ow re n msg method' (Inr m)) = merge_SHA m"
| "mergedSHA ev = None"

fun lastMerged :: "event list \<Rightarrow> string option" where
  "lastMerged [] = None"
| "lastMerged (ev # evs) =
     (case lastMerged evs of
        Some sha \<Rightarrow> Some sha
      | None \<Rightarrow> mergedSHA ev)"

text \<open>
  An instance keeps track of a trace: its merge commit is the one the trace records, or the
  one it had before when the trace records none.
\<close>

definition tracks :: "result \<Rightarrow> GithubPR \<Rightarrow> bool" where
  "tracks x g =
     (mergeSHA (after x) = (case lastMerged (trace x) of None \<Rightarrow> mergeSHA g | Some sha \<Rightarrow> sha))"

fun isCreate :: "call \<Rightarrow> bool" where
  "isCreate (CallCreate b t cp cm fn) = True"
| "isCreate c = False"

section \<open>Sample values\<close>

definition creds0 :: Credentials where
  "creds0 = \<lparr>Username = ''bot'', Token = ''s3cret''\<rparr>"

definition auth0 :: BasicAuth where
  "auth0 = \<lparr>auth_Username = ''bot'', auth_Password = ''s3cret''\<rparr>"

definition sig0 :: Signature where
  "sig0 = \<lparr>Name = ''bot'', Email = ''bot@example.com'', When = zeroTime\<rparr>"

definition noon :: Time where
  "noon = \<lparr>instant = 63900000000000000000, location = ''UTC''\<rparr>"

definition fn0 :: UpdateFunc where
  "fn0 wt = (''bump'', Some sig0, None)"

definition fnFails :: UpdateFunc where
  "fnFails wt = ([], None, Some (Foreign ''nothing to change''))"

definition ciStatus :: "string \<Rightarrow> RepoStatus option" where
  "ciStatus st = Some \<lparr>status_Context = Some ''ci'', status_State = Some st\<rparr>"

definition lintStatus :: "string \<Rightarrow> RepoStatus option" where
  "lintStatus st = Some \<lparr>status_Context = Some ''lint'', status_State = Some st\<rparr>"

text \<open>Feeds whose requests take one second each.\<close>

definition always :: "poll \<Rightarrow> feed" where
  "always p i = (1000000000, p)"

definition pendingThen :: "poll \<Rightarrow> feed" where
  "pendingThen p i = (1000000000, if i = 0 then (Some [ciStatus ''pending''], None) else p)"

definition pr7 :: PullRequest where
  "pr7 = \<lparr>pr_Number = Some 7, pr_Mergeable = Some True,
          pr_Head = Some \<lparr>branch_SHA = Some ''a1b2c3''\<rparr>\<rparr>"

text \<open>A world in which every call succeeds and both checks pass at the first request.\<close>

definition happy :: world where
  "happy = \<lparr>fmt_Sprintf = (\<lambda>s. s),
            util_TempDir = Inr ''repo_42'',
            fs_ChrootTemp = None,
            fs_ChrootGit = None,
            git_Clone = (Some 1, None),
            repo_Head = Inr ''0f0f0f'',
            storer_SetBranchRef = None,
            repo_Worktree = Inr 1,
            worktree_Checkout = None,
            time_Now = noon,
            worktree_Commit = Inr ''c0ffee'',
            storer_SetRemoteRef = None,
            repo_Push = None,
            pulls_Create = Inr pr7,
            pulls_GetHead = Inr pr7,
            statuses_Head = always (Some [ciStatus ''success''], None),
            pulls_GetMergeable = Inr pr7,
            pulls_Merge = Inr \<lparr>merge_SHA = Some ''d4e5f6''\<rparr>,
            statuses_Merge = always (Some [ciStatus ''success''], None),
            select_tie = False,
            os_RemoveAll = None\<rparr>"

text \<open>The instance \<open>makeGithubPR\<close> builds for \<open>octocat/Hello-World\<close> in that world.\<close>

definition fresh :: GithubPR where
  "fresh = \<lparr>auth = auth0, filesystem = ''repo_42'', mergeSHA = [], path = ''repo_42'', pr = 0,
            gitRepo = None, owner = ''octocat'', repo = ''Hello-World''\<rparr>"

definition cloned :: GithubPR where
  "cloned = fresh\<lparr>gitRepo := Some 1\<rparr>"

definition raised :: GithubPR where
  "raised = cloned\<lparr>pr := 7\<rparr>"

text \<open>What every method leaves alone: the directory, the target repository, the credentials.\<close>

definition sameTarget :: "GithubPR \<Rightarrow> GithubPR \<Rightarrow> bool" where
  "sameTarget g g' =
     (path g' = path g \<and> owner g' = owner g \<and> repo g' = repo g \<and> auth g' = auth g)"

section \<open>Basic facts\<close>

lemma outcome_simp [simp]: "outcome (r, g, t) = r"
  by (simp add: outcome_def)

lemma after_simp [simp]: "after (r, g, t) = g"
  by (simp add: after_def)

lemma trace_simp [simp]: "trace (r, g, t) = t"
  by (simp add: trace_def)

lemma andThen_go:
  "outcome x = Returns None \<Longrightarrow>
   andThen x step =
     (outcome (step (after x)), after (step (after x)), trace x @ trace (step (after x)))"
  by (cases x; cases "step (after x)") (simp add: andThen_def)

lemma andThen_stop: "outcome x \<noteq> Returns None \<Longrightarrow> andThen x step = x"
  by (cases x) (auto simp: andThen_def split: go.splits option.splits)

lemma Clone_frame: "sameTarget g (after (Clone w g)) \<and> mergeSHA (after (Clone w g)) = mergeSHA g"
  by (simp add: Clone_def sameTarget_def Let_def split: option.splits prod.splits)

lemma PushCommit_frame: "after (PushCommit w b fn g) = g"
  by (simp add: PushCommit_def Let_def split: option.splits sum.splits prod.splits)

lemma RaisePR_frame:
  "sameTarget g (after (RaisePR w s t title body g)) \<and>
   mergeSHA (after (RaisePR w s t title body g)) = mergeSHA g"
  by (simp add: RaisePR_def sameTarget_def Let_def split: option.splits sum.splits)

lemma WaitForPR_frame: "after (WaitForPR w c g) = g"
  by (simp add: WaitForPR_def Let_def split: option.splits sum.splits prod.splits)

lemma MergePR_frame: "sameTarget g (after (MergePR w g))"
  by (simp add: MergePR_def sameTarget_def Let_def split: option.splits sum.splits)

lemma WaitForMergeCommit_frame: "after (WaitForMergeCommit w c g) = g"
  by (simp add: WaitForMergeCommit_def split: prod.splits)

lemma Close_frame: "after (Close w g) = g"
  by (simp add: Close_def)

lemma waitForStatus_events:
  "waitForStatus fd tie sha ow re c = (r, ts) \<Longrightarrow> ev \<in> set ts \<Longrightarrow> ev = EvListStatuses ow re sha 20"
  by (auto simp: waitForStatus_def split: prod.splits)

lemma Clone_events:
  "ev \<in> set (trace (Clone w g)) \<Longrightarrow> \<not> isCommit ev \<and> \<not> isPush ev \<and> \<not> isPRCreate ev \<and> \<not> isPRMerge ev"
  by (auto simp: Clone_def Let_def split: option.splits prod.splits)

lemma PushCommit_events:
  "ev \<in> set (trace (PushCommit w b fn g)) \<Longrightarrow> \<not> isPRCreate ev \<and> \<not> isPRMerge ev"
  by (auto simp: PushCommit_def Let_def split: option.splits sum.splits prod.splits)

lemma RaisePR_events:
  "ev \<in> set (trace (RaisePR w s t title body g)) \<Longrightarrow>
     ev = EvPRCreate (owner g) (repo g) title s t body"
  by (auto simp: RaisePR_def Let_def split: option.splits sum.splits)

lemma WaitForPR_events:
  "ev \<in> set (trace (WaitForPR w c g)) \<Longrightarrow>
     \<not> isCommit ev \<and> \<not> isPush ev \<and> \<not> isPRCreate ev \<and> \<not> isPRMerge ev"
  by (auto simp: WaitForPR_def Let_def split: option.splits sum.splits prod.splits
           dest: waitForStatus_events)

lemma MergePR_events:
  "ev \<in> set (trace (MergePR w g)) \<Longrightarrow> \<not> isCommit ev \<and> \<not> isPush ev \<and> \<not> isPRCreate ev"
  by (auto simp: MergePR_def Let_def split: option.splits sum.splits if_splits)

lemma WaitForMergeCommit_events:
  "ev \<in> set (trace (WaitForMergeCommit w c g)) \<Longrightarrow>
     \<not> isCommit ev \<and> \<not> isPush ev \<and> \<not> isPRCreate ev \<and> \<not> isPRMerge ev"
  by (auto simp: WaitForMergeCommit_def split: prod.splits dest: waitForStatus_events)

lemma RaisePR_trace:
  "trace (RaisePR w s t title body g) = [EvPRCreate (owner g) (repo g) title s t body]"
  by (simp add: RaisePR_def Let_def split: sum.splits option.splits)

text \<open>\<open>Create\<close>, step by step: each step runs on the instance the one before left.\<close>

lemma deferred_Close:
  "(case x of (r, g', t) \<Rightarrow> (case Close w g' of (rc, g'', tc) \<Rightarrow> (r, g'', t @ tc)))
     = (outcome x, after x, trace x @ [EvRemoveAll (path (after x))])"
  by (cases x) (simp add: Close_def)

lemma Create_unfold:
  fixes w b t c1 c2 fn g
  defines "x1 \<equiv> Clone w g"
  defines "x2 \<equiv> PushCommit w b fn (after x1)"
  defines "x3 \<equiv> RaisePR w b t ''test'' [] (after x2)"
  defines "x4 \<equiv> WaitForPR w c1 (after x3)"
  defines "x5 \<equiv> MergePR w (after x4)"
  defines "x6 \<equiv> WaitForMergeCommit w c2 (after x5)"
  defines "close \<equiv> [EvRemoveAll (path g)]"
  defines "res \<equiv> Create w b t c1 c2 fn g"
  shows "res =
    (if outcome x1 \<noteq> Returns None then (outcome x1, after x1, trace x1 @ close)
     else if outcome x2 \<noteq> Returns None then (outcome x2, after x2, trace x1 @ trace x2 @ close)
     else if outcome x3 \<noteq> Returns None then
       (outcome x3, after x3, trace x1 @ trace x2 @ trace x3 @ close)
     else if outcome x4 \<noteq> Returns None then
       (outcome x4, after x4, trace x1 @ trace x2 @ trace x3 @ trace x4 @ close)
     else if outcome x5 \<noteq> Returns None then
       (outcome x5, after x5, trace x1 @ trace x2 @ trace x3 @ trace x4 @ trace x5 @ close)
     else (outcome x6, after x6,
           trace x1 @ trace x2 @ trace x3 @ trace x4 @ trace x5 @ trace x6 @ close))"
proof -
  have p1: "path (after x1) = path g"
    using Clone_frame [of g w] by (simp add: x1_def sameTarget_def)
  have p2: "path (after x2) = path g"
    by (simp add: x2_def PushCommit_frame p1)
  have p3: "path (after x3) = path g"
    using RaisePR_frame [of "after x2" w b t "''test''" "[]"] by (simp add: x3_def sameTarget_def p2)
  have p4: "path (after x4) = path g"
    by (simp add: x4_def WaitForPR_frame p3)
  have p5: "path (after x5) = path g"
    using MergePR_frame [of "after x4" w] by (simp add: x5_def sameTarget_def p4)
  have p6: "path (after x6) = path g"
    by (simp add: x6_def WaitForMergeCommit_frame p5)
  define f2 where "f2 = PushCommit w b fn"
  define f3 where "f3 = RaisePR w b t ''test'' []"
  define f4 where "f4 = WaitForPR w c1"
  define f5 where "f5 = MergePR w"
  define f6 where "f6 = WaitForMergeCommit w c2"
  have res_eq: "res = (let y = andThen (andThen (andThen (andThen (andThen x1 f2) f3) f4) f5) f6
                    in (outcome y, after y, trace y @ [EvRemoveAll (path (after y))]))"
    unfolding res_def Create_def deferred_Close x1_def f2_def f3_def f4_def f5_def f6_def Let_def ..
  have s2: "outcome x1 = Returns None \<Longrightarrow> andThen x1 f2 = (outcome x2, after x2, trace x1 @ trace x2)"
    by (simp add: andThen_go x2_def f2_def)
  have s3: "andThen (Returns None, after x2, ta) f3 = (outcome x3, after x3, ta @ trace x3)" for ta
    by (simp add: andThen_go x3_def f3_def)
  have s4: "andThen (Returns None, after x3, ta) f4 = (outcome x4, after x4, ta @ trace x4)" for ta
    by (simp add: andThen_go x4_def f4_def)
  have s5: "andThen (Returns None, after x4, ta) f5 = (outcome x5, after x5, ta @ trace x5)" for ta
    by (simp add: andThen_go x5_def f5_def)
  have s6: "andThen (Returns None, after x5, ta) f6 = (outcome x6, after x6, ta @ trace x6)" for ta
    by (simp add: andThen_go x6_def f6_def)
  have stop: "r \<noteq> Returns None \<Longrightarrow> andThen (r, g', ta) step = (r, g', ta)" for r g' ta step
    by (simp add: andThen_stop)
  have a1: "outcome x1 \<noteq> Returns None \<Longrightarrow> res = (outcome x1, after x1, trace x1 @ close)"
    by (simp add: res_eq andThen_stop p1 close_def)
  have a2: "outcome x1 = Returns None \<Longrightarrow> outcome x2 \<noteq> Returns None \<Longrightarrow>
      res = (outcome x2, after x2, trace x1 @ trace x2 @ close)"
    by (simp add: res_eq s2 stop p2 close_def)
  have a3: "outcome x1 = Returns None \<Longrightarrow> outcome x2 = Returns None \<Longrightarrow>
      outcome x3 \<noteq> Returns None \<Longrightarrow>
      res = (outcome x3, after x3, trace x1 @ trace x2 @ trace x3 @ close)"
    by (simp add: res_eq s2 s3 stop p3 close_def)
  have a4: "outcome x1 = Returns None \<Longrightarrow> outcome x2 = Returns None \<Longrightarrow>
      outcome x3 = Returns None \<Longrightarrow> outcome x4 \<noteq> Returns None \<Longrightarrow>
      res = (outcome x4, after x4, trace x1 @ trace x2 @ trace x3 @ trace x4 @ close)"
    by (simp add: res_eq s2 s3 s4 stop p4 close_def)
  have a5: "outcome x1 = Returns None \<Longrightarrow> outcome x2 = Returns None \<Longrightarrow>
      outcome x3 = Returns None \<Longrightarrow> outcome x4 = Returns None \<Longrightarrow>
      outcome x5 \<noteq> Returns None \<Longrightarrow>
      res = (outcome x5, after x5, trace x1 @ trace x2 @ trace x3 @ trace x4 @ trace x5 @ close)"
    by (simp add: res_eq s2 s3 s4 s5 stop p5 close_def)
  have a6: "outcome x1 = Returns None \<Longrightarrow> outcome x2 = Returns None \<Longrightarrow>
      outcome x3 = Returns None \<Longrightarrow> outcome x4 = Returns None \<Longrightarrow>
      outcome x5 = Returns None \<Longrightarrow>
      res = (outcome x6, after x6,
             trace x1 @ trace x2 @ trace x3 @ trace x4 @ trace x5 @ trace x6 @ close)"
    by (simp add: res_eq s2 s3 s4 s5 s6 p6 close_def)
  show ?thesis
    using a1 a2 a3 a4 a5 a6 by presburger
qed

lemma Create_events:
  assumes "ev \<in> set (trace (Create w b t c1 c2 fn g))"
  shows "ev \<in> set (trace (Clone w g))
       \<or> (\<exists>g'. sameTarget g g' \<and> ev \<in> set (trace (PushCommit w b fn g')))
       \<or> (\<exists>g'. sameTarget g g' \<and> ev \<in> set (trace (RaisePR w b t ''test'' [] g')))
       \<or> (\<exists>g'. sameTarget g g' \<and> ev \<in> set (trace (WaitForPR w c1 g')))
       \<or> (\<exists>g'. sameTarget g g' \<and> ev \<in> set (trace (MergePR w g')))
       \<or> (\<exists>g'. sameTarget g g' \<and> ev \<in> set (trace (WaitForMergeCommit w c2 g')))
       \<or> ev = EvRemoveAll (path g)"
proof -
  define x1 where "x1 = Clone w g"
  define x2 where "x2 = PushCommit w b fn (after x1)"
  define x3 where "x3 = RaisePR w b t ''test'' [] (after x2)"
  define x4 where "x4 = WaitForPR w c1 (after x3)"
  define x5 where "x5 = MergePR w (after x4)"
  define x6 where "x6 = WaitForMergeCommit w c2 (after x5)"
  have t1: "sameTarget g (after x1)"
    by (simp add: x1_def Clone_frame)
  have t2: "sameTarget g (after x2)"
    by (simp add: x2_def PushCommit_frame t1)
  have t3: "sameTarget g (after x3)"
    using RaisePR_frame [of "after x2" w b t "''test''" "[]"] t2 by (simp add: x3_def sameTarget_def)
  have t4: "sameTarget g (after x4)"
    by (simp add: x4_def WaitForPR_frame t3)
  have t5: "sameTarget g (after x5)"
    using MergePR_frame [of "after x4" w] t4 by (simp add: x5_def sameTarget_def)
  have "ev \<in> set (trace x1) \<or> ev \<in> set (trace x2) \<or> ev \<in> set (trace x3) \<or> ev \<in> set (trace x4)
      \<or> ev \<in> set (trace x5) \<or> ev \<in> set (trace x6) \<or> ev = EvRemoveAll (path g)"
    using assms unfolding Create_unfold [of w b t c1 c2 fn g]
    by (fold x1_def, fold x2_def, fold x3_def, fold x4_def, fold x5_def, fold x6_def)
       (auto split: if_splits)
  then show ?thesis
    using t1 t2 t3 t4 t5 unfolding x1_def x2_def x3_def x4_def x5_def x6_def by blast
qed

subsection \<open>The polling loop\<close>

lemma scanStatuses_decisive:
  "scanStatuses ss c =
     (case decisive ss c of
        None \<Rightarrow> KeepPolling
      | Some s \<Rightarrow> Resolved (if GetState s = ''success'' then None else Some errStatusFailed))"
  by (induction ss) (auto simp: decisive_def terminal_def)

lemma classify_page:
  "classify (Some ss, None) c =
     (case decisive ss c of
        None \<Rightarrow> KeepPolling
      | Some s \<Rightarrow> Resolved (if GetState s = ''success'' then None else Some errStatusFailed))"
  by (simp add: classify_def scanStatuses_decisive)

lemma startOf_lower: "i * pollInterval \<le> startOf fd i"
  by (induction i) auto

lemma startOf_mono: "i \<le> j \<Longrightarrow> startOf fd i \<le> startOf fd j"
  by (induction j) (auto simp: le_Suc_eq)

text \<open>Passes that keep polling, answered by the deadline, are skipped.\<close>

lemma pollLoop_skip:
  assumes "\<forall>j<k. classify (snd (fd j)) c = KeepPolling" and "startOf fd k \<le> deadline"
  shows "pollLoop fd tie c 0 0 =
           (case pollLoop fd tie c k (startOf fd k) of (r, n) \<Rightarrow> (r, n + k))"
  using assms
proof (induction k)
  case 0
  then show ?case by (simp split: prod.splits)
next
  case (Suc k)
  have le: "startOf fd k \<le> deadline"
    using Suc.prems(2) startOf_mono [of k "Suc k" fd] by simp
  have kp: "classify (snd (fd k)) c = KeepPolling"
    using Suc.prems(1) by simp
  have step: "pollLoop fd tie c k (startOf fd k) =
      (case pollLoop fd tie c (Suc k) (startOf fd (Suc k)) of (r, n) \<Rightarrow> (r, Suc n))"
    using Suc.prems(2) kp by (subst pollLoop.simps) simp
  show ?case
    using Suc.IH Suc.prems(1) le by (simp add: step split: prod.splits)
qed

lemma pollLoop_resolved:
  assumes "\<forall>j<k. classify (snd (fd j)) c = KeepPolling" and "arrival fd k < deadline"
    and "classify (snd (fd k)) c = Resolved r"
  shows "pollLoop fd tie c 0 0 = (r, Suc k)"
proof -
  have le: "startOf fd k \<le> deadline"
    using assms(2) startOf_mono [of k "Suc k" fd] by (simp add: arrival_def)
  have "pollLoop fd tie c k (startOf fd k) = (r, 1)"
    using assms(2,3) by (subst pollLoop.simps) (simp add: arrival_def)
  then show ?thesis
    using pollLoop_skip [OF assms(1) le, of tie] by simp
qed

lemma pollLoop_continues:
  assumes "\<forall>j<k. classify (snd (fd j)) c = KeepPolling" and "arrival fd k \<le> deadline"
    and "classify (snd (fd k)) c = KeepPolling"
  shows "pollLoop fd tie c 0 0 =
           (case pollLoop fd tie c (Suc k) (arrival fd k) of (r, n) \<Rightarrow> (r, n + Suc k))"
proof -
  have "\<forall>j<Suc k. classify (snd (fd j)) c = KeepPolling"
    using assms(1,3) by (simp add: less_Suc_eq)
  then show ?thesis
    using pollLoop_skip [of "Suc k" fd c tie] assms(2) by (simp add: arrival_def)
qed

lemma pollLoop_times_out:
  assumes "\<forall>j. arrival fd j < deadline \<or> (arrival fd j = deadline \<and> tie) \<longrightarrow>
             classify (snd (fd j)) c = KeepPolling"
  shows "fst (pollLoop fd tie c 0 0) = Some errTimedOut"
proof -
  define late where "late n = (deadline < arrival fd n \<or> classify (snd (fd n)) c \<noteq> KeepPolling)" for n
  have "deadline < arrival fd 1800"
    using startOf_lower [of 1801 fd] by (simp add: arrival_def deadline_def pollInterval_def)
  then have ex: "late 1800"
    by (simp add: late_def)
  define k where "k = (LEAST n. late n)"
  have lk: "late k"
    unfolding k_def using ex by (rule LeastI)
  have before: "\<not> late j" if "j < k" for j
    using that not_less_Least unfolding k_def by blast
  have kp: "\<forall>j<k. classify (snd (fd j)) c = KeepPolling"
    using before by (simp add: late_def)
  have le: "startOf fd k \<le> deadline"
  proof (cases k)
    case 0
    then show ?thesis by simp
  next
    case (Suc m)
    then have "\<not> late m" using before by simp
    then show ?thesis using Suc by (simp add: late_def arrival_def)
  qed
  have "fst (pollLoop fd tie c k (startOf fd k)) = Some errTimedOut"
  proof (cases "deadline < arrival fd k")
    case True
    then show ?thesis by (subst pollLoop.simps) (simp add: arrival_def)
  next
    case False
    then have nk: "classify (snd (fd k)) c \<noteq> KeepPolling"
      using lk by (simp add: late_def)
    then have "\<not> (arrival fd k < deadline \<or> (arrival fd k = deadline \<and> tie))"
      using assms by blast
    then show ?thesis
      using False nk
      by (subst pollLoop.simps) (auto simp: arrival_def split: verdict.splits)
  qed
  then show ?thesis
    using pollLoop_skip [OF kp le, of tie] by (simp split: prod.splits)
qed

lemma find_conj_filter: "find (\<lambda>x. Q x \<and> T x) xs = find T (filter Q xs)"
  by (induction xs) auto

lemma decisive_single:
  "filter (\<lambda>s. GetContext s = c) ss = [s] \<Longrightarrow>
     decisive ss c = (if terminal (GetState s) then Some s else None)"
  by (simp add: decisive_def find_conj_filter)

lemma decisive_no_match: "filter (\<lambda>s. GetContext s = c) ss = [] \<Longrightarrow> decisive ss c = None"
  by (simp add: decisive_def find_conj_filter)

lemma find_Some_split:
  "find P xs = Some x \<longleftrightarrow> (\<exists>ys zs. xs = ys @ x # zs \<and> P x \<and> (\<forall>y \<in> set ys. \<not> P y))"
proof (induction xs)
  case Nil
  then show ?case by simp
next
  case (Cons a xs)
  show ?case
  proof (cases "P a")
    case True
    have "(\<exists>ys zs. a # xs = ys @ x # zs \<and> P x \<and> (\<forall>y \<in> set ys. \<not> P y)) \<longleftrightarrow> x = a"
    proof
      assume "\<exists>ys zs. a # xs = ys @ x # zs \<and> P x \<and> (\<forall>y \<in> set ys. \<not> P y)"
      then obtain ys zs where e: "a # xs = ys @ x # zs" and n: "\<forall>y \<in> set ys. \<not> P y"
        by blast
      show "x = a"
      proof (cases ys)
        case Nil
        with e show ?thesis by simp
      next
        case (Cons b ys')
        with e have "b = a" by simp
        with Cons n True show ?thesis by simp
      qed
    next
      assume "x = a"
      then have "a # xs = [] @ x # xs \<and> P x \<and> (\<forall>y \<in> set []. \<not> P y)"
        using True by simp
      then show "\<exists>ys zs. a # xs = ys @ x # zs \<and> P x \<and> (\<forall>y \<in> set ys. \<not> P y)"
        by blast
    qed
    with True show ?thesis by auto
  next
    case False
    have "(\<exists>ys zs. a # xs = ys @ x # zs \<and> P x \<and> (\<forall>y \<in> set ys. \<not> P y))
       \<longleftrightarrow> (\<exists>ys zs. xs = ys @ x # zs \<and> P x \<and> (\<forall>y \<in> set ys. \<not> P y))"
    proof
      assume "\<exists>ys zs. a # xs = ys @ x # zs \<and> P x \<and> (\<forall>y \<in> set ys. \<not> P y)"
      then obtain ys zs where e: "a # xs = ys @ x # zs" and px: "P x"
        and n: "\<forall>y \<in> set ys. \<not> P y"
        by blast
      show "\<exists>ys zs. xs = ys @ x # zs \<and> P x \<and> (\<forall>y \<in> set ys. \<not> P y)"
      proof (cases ys)
        case Nil
        with e have "x = a" by simp
        with px False show ?thesis by simp
      next
        case (Cons b ys')
        with e have "xs = ys' @ x # zs" by simp
        moreover have "\<forall>y \<in> set ys'. \<not> P y" using n Cons by simp
        ultimately show ?thesis using px by blast
      qed
    next
      assume "\<exists>ys zs. xs = ys @ x # zs \<and> P x \<and> (\<forall>y \<in> set ys. \<not> P y)"
      then obtain ys zs where e: "xs = ys @ x # zs" and px: "P x"
        and n: "\<forall>y \<in> set ys. \<not> P y"
        by blast
      have "a # xs = (a # ys) @ x # zs \<and> P x \<and> (\<forall>y \<in> set (a # ys). \<not> P y)"
        using e px n False by simp
      then show "\<exists>ys zs. a # xs = ys @ x # zs \<and> P x \<and> (\<forall>y \<in> set ys. \<not> P y)"
        by blast
    qed
    with False Cons.IH show ?thesis by simp
  qed
qed

subsection \<open>The pattern and the split\<close>

lemma NotLit_iff: "rmatch (NotLit c) s \<longleftrightarrow> (\<exists>x. s = [x] \<and> x \<noteq> c)"
  by (cases s rule: list.exhaust; cases "tl s") auto

lemma plusm_NotLit_only_if: "plusm (rmatch (NotLit c)) s \<Longrightarrow> s \<noteq> [] \<and> c \<notin> set s"
proof (induction "rmatch (NotLit c)" s rule: plusm.induct)
  case (1 s)
  have "rmatch (NotLit c) s \<or>
      (\<exists>k \<in> {1..<length s}. rmatch (NotLit c) (take k s) \<and> plusm (rmatch (NotLit c)) (drop k s))"
    using "1.prems" by (subst (asm) plusm.simps)
  then show ?case
  proof (elim disjE bexE conjE)
    assume "rmatch (NotLit c) s"
    then obtain x where "s = [x]" "x \<noteq> c"
      unfolding NotLit_iff by blast
    then show ?thesis by simp
  next
    fix k
    assume k: "k \<in> {1..<length s}" and hd: "rmatch (NotLit c) (take k s)"
      and tl: "plusm (rmatch (NotLit c)) (drop k s)"
    have "drop k s \<noteq> [] \<and> c \<notin> set (drop k s)"
      by (rule "1.hyps" [OF k tl])
    moreover obtain x where "take k s = [x]" "x \<noteq> c"
      using hd unfolding NotLit_iff by blast
    moreover have "set s = set (take k s @ drop k s)"
      by simp
    ultimately show ?thesis
      by (simp only: set_append) auto
  qed
qed


lemma plusm_NotLit_if: "s \<noteq> [] \<Longrightarrow> c \<notin> set s \<Longrightarrow> plusm (rmatch (NotLit c)) s"
proof (induction s)
  case Nil
  then show ?case by simp
next
  case (Cons x xs)
  show ?case
  proof (cases xs)
    case Nil
    then have "rmatch (NotLit c) (x # xs)"
      using Cons.prems by auto
    then show ?thesis
      by (subst plusm.simps) simp
  next
    case (Cons y ys)
    then have "plusm (rmatch (NotLit c)) xs"
      using Cons.IH Cons.prems by simp
    moreover have "rmatch (NotLit c) (take 1 (x # xs))"
      using Cons.prems by auto
    moreover have "(1::nat) \<in> {1..<length (x # xs)}"
      using Cons by simp
    ultimately show ?thesis
      by (subst plusm.simps) force
  qed
qed

lemma Plus_NotLit_iff: "rmatch (Plus (NotLit c)) s \<longleftrightarrow> s \<noteq> [] \<and> c \<notin> set s"
  using plusm_NotLit_only_if plusm_NotLit_if by auto

lemma Seq_iff: "rmatch (Seq a b) s \<longleftrightarrow> (\<exists>u v. s = u @ v \<and> rmatch a u \<and> rmatch b v)"
proof
  assume "rmatch (Seq a b) s"
  then obtain k where "rmatch a (take k s)" "rmatch b (drop k s)"
    by auto
  moreover have "s = take k s @ drop k s"
    by simp
  ultimately show "\<exists>u v. s = u @ v \<and> rmatch a u \<and> rmatch b v"
    by blast
next
  assume "\<exists>u v. s = u @ v \<and> rmatch a u \<and> rmatch b v"
  then obtain u v where "s = u @ v" "rmatch a u" "rmatch b v"
    by blast
  then have "length u \<in> {0..length s}" "rmatch a (take (length u) s)"
      "rmatch b (drop (length u) s)"
    by simp_all
  then show "rmatch (Seq a b) s"
    by auto
qed

lemma repoName_iff:
  "MatchString repoNamePattern n \<longleftrightarrow>
     (\<exists>u v. n = u @ CHR ''/'' # v \<and> u \<noteq> [] \<and> v \<noteq> [] \<and>
            CHR ''/'' \<notin> set u \<and> CHR ''/'' \<notin> set v)"
proof
  let ?A = "Plus (NotLit CHR ''/'')"
  let ?L = "Lit CHR ''/''"
  assume "MatchString repoNamePattern n"
  then have "rmatch (Seq ?A (Seq ?L ?A)) n"
    by (simp only: MatchString_def repoNamePattern_def)
  then obtain u w where n: "n = u @ w" and u: "rmatch ?A u" and w: "rmatch (Seq ?L ?A) w"
    using Seq_iff [of ?A "Seq ?L ?A" n] by blast
  obtain x v where w': "w = x @ v" and x: "rmatch ?L x" and v: "rmatch ?A v"
    using w Seq_iff [of ?L ?A w] by blast
  have "x = [CHR ''/'']"
    using x by simp
  then have "n = u @ CHR ''/'' # v"
    using n w' by simp
  moreover have "u \<noteq> [] \<and> CHR ''/'' \<notin> set u"
    using u Plus_NotLit_iff [of "CHR ''/''" u] by blast
  moreover have "v \<noteq> [] \<and> CHR ''/'' \<notin> set v"
    using v Plus_NotLit_iff [of "CHR ''/''" v] by blast
  ultimately show "\<exists>u v. n = u @ CHR ''/'' # v \<and> u \<noteq> [] \<and> v \<noteq> [] \<and>
            CHR ''/'' \<notin> set u \<and> CHR ''/'' \<notin> set v"
    by blast
next
  let ?A = "Plus (NotLit CHR ''/'')"
  let ?L = "Lit CHR ''/''"
  assume "\<exists>u v. n = u @ CHR ''/'' # v \<and> u \<noteq> [] \<and> v \<noteq> [] \<and>
            CHR ''/'' \<notin> set u \<and> CHR ''/'' \<notin> set v"
  then obtain u v where n: "n = u @ CHR ''/'' # v" and u: "u \<noteq> []" "CHR ''/'' \<notin> set u"
    and v: "v \<noteq> []" "CHR ''/'' \<notin> set v"
    by blast
  have a: "rmatch ?A u"
    using u Plus_NotLit_iff [of "CHR ''/''" u] by blast
  have b: "rmatch ?A v"
    using v Plus_NotLit_iff [of "CHR ''/''" v] by blast
  have l: "rmatch ?L [CHR ''/'']"
    by simp
  have "CHR ''/'' # v = [CHR ''/''] @ v"
    by simp
  then have "rmatch (Seq ?L ?A) (CHR ''/'' # v)"
    using l b Seq_iff [of ?L ?A "CHR ''/'' # v"] by blast
  then have "rmatch (Seq ?A (Seq ?L ?A)) n"
    using a n Seq_iff [of ?A "Seq ?L ?A" n] by blast
  then show "MatchString repoNamePattern n"
    by (simp only: MatchString_def repoNamePattern_def)
qed

lemma Split_prefix: "sep \<notin> set u \<Longrightarrow> Split (u @ sep # v) sep = u # Split v sep"
  by (induction u) auto

lemma Split_none: "sep \<notin> set v \<Longrightarrow> Split v sep = [v]"
  by (induction v) auto

lemma Split_two:
  "sep \<notin> set u \<Longrightarrow> sep \<notin> set v \<Longrightarrow> Split (u @ sep # v) sep = [u, v]"
  by (simp add: Split_prefix Split_none)

subsection \<open>The merge commit of an instance\<close>

lemma lastMerged_append:
  "lastMerged (t @ t') = (case lastMerged t' of Some sha \<Rightarrow> Some sha | None \<Rightarrow> lastMerged t)"
  by (induction t) (auto split: option.splits)

lemma lastMerged_none: "(\<And>ev. ev \<in> set t \<Longrightarrow> \<not> isPRMerge ev) \<Longrightarrow> lastMerged t = None"
proof (induction t)
  case Nil
  then show ?case by simp
next
  case (Cons a t)
  have "\<not> isPRMerge a"
    using Cons.prems by simp
  then have "mergedSHA a = None"
    by (cases a) simp_all
  then show ?case
    using Cons by simp
qed

lemma tracks_unchanged:
  "after x = g \<Longrightarrow> (\<And>ev. ev \<in> set (trace x) \<Longrightarrow> \<not> isPRMerge ev) \<Longrightarrow> tracks x g"
  by (simp add: tracks_def lastMerged_none)

lemma Clone_tracks: "tracks (Clone w g) g"
  using Clone_frame [of g w] Clone_events [of _ w g]
  by (simp add: tracks_def lastMerged_none)

lemma PushCommit_tracks: "tracks (PushCommit w b fn g) g"
  using PushCommit_events [of _ w b fn g] by (intro tracks_unchanged PushCommit_frame) blast

lemma RaisePR_tracks: "tracks (RaisePR w s t title body g) g"
  using RaisePR_frame [of g w s t title body]
  by (simp add: tracks_def lastMerged_none RaisePR_trace)

lemma WaitForPR_tracks: "tracks (WaitForPR w c g) g"
  using WaitForPR_events [of _ w c g] by (intro tracks_unchanged WaitForPR_frame) blast

lemma MergePR_tracks: "tracks (MergePR w g) g"
  by (simp add: tracks_def MergePR_def Let_def split: sum.splits option.splits)

lemma WaitForMergeCommit_tracks: "tracks (WaitForMergeCommit w c g) g"
  using WaitForMergeCommit_events [of _ w c g]
  by (intro tracks_unchanged WaitForMergeCommit_frame) blast

lemma Close_tracks: "tracks (Close w g) g"
  by (simp add: tracks_def Close_def)

lemma andThen_tracks:
  assumes "tracks x g" and "\<And>g'. tracks (step g') g'"
  shows "tracks (andThen x step) g"
proof (cases "outcome x = Returns None")
  case True
  have "tracks (step (after x)) (after x)"
    by (rule assms(2))
  then show ?thesis
    using assms(1) True
    by (simp add: andThen_go tracks_def lastMerged_append split: option.splits)
next
  case False
  then show ?thesis
    using assms(1) by (simp add: andThen_stop)
qed

lemma Create_tracks: "tracks (Create w b t cp cm fn g) g"
proof -
  let ?y = "andThen (andThen (andThen (andThen (andThen
             (Clone w g)
             (PushCommit w b fn))
             (RaisePR w b t ''test'' []))
             (WaitForPR w cp))
             (MergePR w))
             (WaitForMergeCommit w cm)"
  have y: "tracks ?y g"
    by (intro andThen_tracks Clone_tracks PushCommit_tracks RaisePR_tracks WaitForPR_tracks
          MergePR_tracks WaitForMergeCommit_tracks)
  have "Create w b t cp cm fn g = (outcome ?y, after ?y, trace ?y @ [EvRemoveAll (path (after ?y))])"
    unfolding Create_def by (rule deferred_Close)
  then show ?thesis
    using y by (simp add: tracks_def lastMerged_append)
qed

lemma exec_tracks: "tracks (exec c w g) g"
  by (cases c)
     (simp_all add: Clone_tracks PushCommit_tracks RaisePR_tracks WaitForPR_tracks MergePR_tracks
        WaitForMergeCommit_tracks Close_tracks Create_tracks)

lemma run_tracks:
  "mergeSHA (fst (run cs g)) =
     (case lastMerged (snd (run cs g)) of None \<Rightarrow> mergeSHA g | Some sha \<Rightarrow> sha)"
proof (induction cs arbitrary: g)
  case Nil
  then show ?case by simp
next
  case (Cons cw cs)
  obtain c w where cw: "cw = (c, w)"
    by (cases cw)
  obtain r g' t where e: "exec c w g = (r, g', t)"
    by (cases "exec c w g")
  have "tracks (exec c w g) g"
    by (rule exec_tracks)
  then have h: "mergeSHA g' = (case lastMerged t of None \<Rightarrow> mergeSHA g | Some sha \<Rightarrow> sha)"
    by (simp add: tracks_def e)
  obtain g'' t' where r: "run cs g' = (g'', t')"
    by (cases "run cs g'")
  have "mergeSHA g'' = (case lastMerged t' of None \<Rightarrow> mergeSHA g' | Some sha \<Rightarrow> sha)"
    using Cons.IH [of g'] by (simp add: r)
  then show ?case
    using h by (simp add: cw e r lastMerged_append split: option.splits)
qed

lemma failed_keeps_mergeSHA:
  "\<not> isCreate c \<Longrightarrow> outcome (exec c w g) \<noteq> Returns None \<Longrightarrow>
     mergeSHA (after (exec c w g)) = mergeSHA g"
proof (cases c)
  case CallClone
  then show ?thesis using Clone_frame [of g w] by simp
next
  case (CallPushCommit b fn)
  then show ?thesis by (simp add: PushCommit_frame)
next
  case (CallRaisePR s t title body)
  then show ?thesis using RaisePR_frame [of g w s t title body] by simp
next
  case (CallWaitForPR x)
  then show ?thesis by (simp add: WaitForPR_frame)
next
  case CallMergePR
  assume "outcome (exec c w g) \<noteq> Returns None"
  then show ?thesis
    using CallMergePR by (auto simp: MergePR_def Let_def split: sum.splits option.splits if_splits)
next
  case (CallWaitForMergeCommit x)
  then show ?thesis by (simp add: WaitForMergeCommit_frame)
next
  case CallClose
  then show ?thesis by (simp add: Close_frame)
next
  case (CallCreate b t cp cm fn)
  assume "\<not> isCreate c"
  then show ?thesis using CallCreate by simp
qed

lemma MergePR_succeeds_iff:
  "outcome (MergePR w g) = Returns None \<longleftrightarrow> lastMerged (trace (MergePR w g)) \<noteq> None"
  by (auto simp: MergePR_def Let_def split: sum.splits option.splits if_splits)

section \<open>MergePR and the mergeable flag\<close>

text \<open>
  C5. \<open>MergePR\<close> fetches the pull request. When the fetched mergeable flag is false or
  absent, \<open>MergePR\<close> returns the error "PR is not mergeable", leaves the instance as it was
  and has asked nothing but the fetch: the merge request is not made. Whenever a merge
  request is made, the fetch succeeded and its mergeable flag was present and true.
\<close>

theorem MergePR_needs_mergeable:
  "(pulls_GetMergeable w = Inr p \<and> pr_Mergeable p \<noteq> Some True \<longrightarrow>
      MergePR w g = (Returns (Some errNotMergeable), g, [EvPRGet (owner g) (repo g) (pr g)]))
   \<and> ((\<exists>ev \<in> set (trace (MergePR w g)). isPRMerge ev) \<longrightarrow>
      (\<exists>q. pulls_GetMergeable w = Inr q \<and> pr_Mergeable q = Some True))"
  by (auto simp: MergePR_def trace_def Let_def split: sum.splits option.splits if_splits)

theorem MergePR_needs_mergeable_witness:
  "MergePR (happy\<lparr>pulls_GetMergeable := Inr (pr7\<lparr>pr_Mergeable := None\<rparr>)\<rparr>) raised
     = (Returns (Some errNotMergeable), raised, [EvPRGet ''octocat'' ''Hello-World'' 7])
   \<and> (\<exists>ev \<in> set (trace (MergePR happy raised)). isPRMerge ev)
   \<and> (\<exists>q. pulls_GetMergeable happy = Inr q \<and> pr_Mergeable q = Some True)"
  using MergePR_needs_mergeable [of "happy\<lparr>pulls_GetMergeable := Inr (pr7\<lparr>pr_Mergeable := None\<rparr>)\<rparr>"
          "pr7\<lparr>pr_Mergeable := None\<rparr>" raised]
        MergePR_needs_mergeable [of happy pr7 raised]
  by (simp add: happy_def pr7_def raised_def cloned_def fresh_def MergePR_def trace_def)

section \<open>PushCommit and the callback\<close>

text \<open>
  C6. When the callback fails, \<open>PushCommit\<close> makes no commit and no push, whatever the
  instance and the rest of the world. When the callback is reached (the repository is there,
  \<open>Head\<close>, the branch reference and \<open>Worktree\<close> succeed), \<open>PushCommit\<close> returns the
  callback's own error, and the last thing it has done is to call the callback.
\<close>

theorem PushCommit_callback_fails:
  "(repo_Worktree w = Inr wt \<and> fn wt = (m, a, Some e) \<longrightarrow>
      (\<forall>ev \<in> set (trace (PushCommit w b fn g)). \<not> isCommit ev \<and> \<not> isPush ev))
   \<and> (gitRepo g = Some r \<and> repo_Head w = Inr h \<and> storer_SetBranchRef w = None \<and>
      repo_Worktree w = Inr wt \<and> fn wt = (m, a, Some e) \<longrightarrow>
      PushCommit w b fn g =
        (Returns (Some e), g,
         [EvHead, EvSetReference (''refs/heads/'' @ b) h, EvWorktree,
          EvCheckout (''refs/heads/'' @ b), EvUpdateFunc wt]))"
  by (auto simp: PushCommit_def trace_def Let_def split: sum.splits option.splits)

theorem PushCommit_callback_fails_witness:
  "repo_Worktree happy = Inr 1 \<and> fnFails 1 = ([], None, Some (Foreign ''nothing to change''))
   \<and> gitRepo cloned = Some 1 \<and> repo_Head happy = Inr ''0f0f0f'' \<and> storer_SetBranchRef happy = None
   \<and> PushCommit happy ''feature'' fnFails cloned =
        (Returns (Some (Foreign ''nothing to change'')), cloned,
         [EvHead, EvSetReference ''refs/heads/feature'' ''0f0f0f'', EvWorktree,
          EvCheckout ''refs/heads/feature'', EvUpdateFunc 1])
   \<and> list_all (\<lambda>ev. \<not> isCommit ev \<and> \<not> isPush ev)
        (trace (PushCommit happy ''feature'' fnFails cloned))"
  using PushCommit_callback_fails [of happy 1 fnFails "[]" None "Foreign ''nothing to change''"
          "''feature''" cloned 1 "''0f0f0f''"]
  by (simp add: happy_def fnFails_def cloned_def fresh_def list_all_iff)

text \<open>
  C9. When the callback succeeds and returns an author, \<open>PushCommit\<close> calls \<open>Commit\<close>
  once. If the author's timestamp equals the zero time, the author committed is the one
  returned with its timestamp replaced by the reading of the clock (\<open>time.Now()\<close>); so it
  is not the zero time, as long as the clock does not read the zero time. If the
  timestamp is not the zero time, the author is committed as returned.
\<close>

theorem PushCommit_commit_time:
  assumes "gitRepo g = Some r" and "repo_Head w = Inr h" and "storer_SetBranchRef w = None"
    and "repo_Worktree w = Inr wt" and "fn wt = (m, Some a, None)"
  shows "(Time_Equal (When a) zeroTime \<longrightarrow>
            filter isCommit (trace (PushCommit w b fn g)) = [EvCommit m (a\<lparr>When := time_Now w\<rparr>)])
       \<and> (\<not> Time_Equal (When a) zeroTime \<longrightarrow>
            filter isCommit (trace (PushCommit w b fn g)) = [EvCommit m a])
       \<and> (\<not> Time_Equal (time_Now w) zeroTime \<longrightarrow>
            (\<forall>m' a'. EvCommit m' a' \<in> set (trace (PushCommit w b fn g)) \<longrightarrow>
               \<not> Time_Equal (When a') zeroTime))"
  using assms
  by (auto simp: PushCommit_def trace_def Let_def Time_Equal_def split: sum.splits option.splits)

theorem PushCommit_commit_time_witness:
  "Time_Equal (When sig0) zeroTime
   \<and> filter isCommit (trace (PushCommit happy ''feature'' fn0 cloned))
       = [EvCommit ''bump'' (sig0\<lparr>When := noon\<rparr>)]
   \<and> \<not> Time_Equal noon zeroTime
   \<and> \<not> Time_Equal (When (sig0\<lparr>When := noon\<lparr>instant := 5\<rparr>\<rparr>)) zeroTime
   \<and> filter isCommit
        (trace (PushCommit happy ''feature''
                  (\<lambda>wt. (''bump'', Some (sig0\<lparr>When := noon\<lparr>instant := 5\<rparr>\<rparr>), None)) cloned))
       = [EvCommit ''bump'' (sig0\<lparr>When := noon\<lparr>instant := 5\<rparr>\<rparr>)]"
  using PushCommit_commit_time [of cloned 1 happy "''0f0f0f''" 1 fn0 "''bump''" sig0 "''feature''"]
        PushCommit_commit_time [of cloned 1 happy "''0f0f0f''" 1
          "\<lambda>wt. (''bump'', Some (sig0\<lparr>When := noon\<lparr>instant := 5\<rparr>\<rparr>), None)" "''bump''"
          "sig0\<lparr>When := noon\<lparr>instant := 5\<rparr>\<rparr>" "''feature''"]
  by (simp add: happy_def cloned_def fresh_def fn0_def sig0_def noon_def zeroTime_def Time_Equal_def)

section \<open>Create\<close>

text \<open>
  C2. \<open>x1\<close>, ..., \<open>x6\<close> are the six steps of \<open>Create\<close> (clone, push, create the pull
  request, wait for its status, merge, wait for the merge commit's status), each run on the
  instance the step before left. If a step does not return nil (it returns an error, or
  panics) after every step before it returned nil, then \<open>Create\<close> ends the same way and returns
  that step's error; it has asked of the collaborators what the steps up to that one asked,
  then \<open>os.RemoveAll\<close> of the instance's directory (the call \<open>Close\<close> makes), and nothing
  else: no later step has run. This holds for the clone step too. On every run the call of
  \<open>Close\<close> is the last thing done. Seen from the trace alone: a run that pushes has cloned
  without error, a run that creates a pull request has cloned and pushed without error, and
  a run that asks for a merge has passed the four steps before it.
\<close>

theorem Create_stops_at_first_failure:
  fixes w b t cp cm fn g
  defines "x1 \<equiv> Clone w g"
  defines "x2 \<equiv> PushCommit w b fn (after x1)"
  defines "x3 \<equiv> RaisePR w b t ''test'' [] (after x2)"
  defines "x4 \<equiv> WaitForPR w cp (after x3)"
  defines "x5 \<equiv> MergePR w (after x4)"
  defines "x6 \<equiv> WaitForMergeCommit w cm (after x5)"
  defines "close \<equiv> [EvRemoveAll (path g)]"
  defines "res \<equiv> Create w b t cp cm fn g"
  shows "(outcome x1 \<noteq> Returns None \<longrightarrow> res = (outcome x1, after x1, trace x1 @ close))
    \<and> (outcome x1 = Returns None \<and> outcome x2 \<noteq> Returns None \<longrightarrow>
         res = (outcome x2, after x2, trace x1 @ trace x2 @ close))
    \<and> (outcome x1 = Returns None \<and> outcome x2 = Returns None \<and> outcome x3 \<noteq> Returns None \<longrightarrow>
         res = (outcome x3, after x3, trace x1 @ trace x2 @ trace x3 @ close))
    \<and> (outcome x1 = Returns None \<and> outcome x2 = Returns None \<and> outcome x3 = Returns None \<and>
       outcome x4 \<noteq> Returns None \<longrightarrow>
         res = (outcome x4, after x4, trace x1 @ trace x2 @ trace x3 @ trace x4 @ close))
    \<and> (outcome x1 = Returns None \<and> outcome x2 = Returns None \<and> outcome x3 = Returns None \<and>
       outcome x4 = Returns None \<and> outcome x5 \<noteq> Returns None \<longrightarrow>
         res = (outcome x5, after x5,
                trace x1 @ trace x2 @ trace x3 @ trace x4 @ trace x5 @ close))
    \<and> (outcome x1 = Returns None \<and> outcome x2 = Returns None \<and> outcome x3 = Returns None \<and>
       outcome x4 = Returns None \<and> outcome x5 = Returns None \<longrightarrow>
         res = (outcome x6, after x6,
                trace x1 @ trace x2 @ trace x3 @ trace x4 @ trace x5 @ trace x6 @ close))
    \<and> (\<exists>t'. trace res = t' @ close)
    \<and> ((\<exists>ev \<in> set (trace res). isPush ev) \<longrightarrow> outcome x1 = Returns None)
    \<and> ((\<exists>ev \<in> set (trace res). isPRCreate ev) \<longrightarrow>
         outcome x1 = Returns None \<and> outcome x2 = Returns None)
    \<and> ((\<exists>ev \<in> set (trace res). isPRMerge ev) \<longrightarrow>
         outcome x1 = Returns None \<and> outcome x2 = Returns None \<and> outcome x3 = Returns None \<and>
         outcome x4 = Returns None)"
proof -
  have u: "res =
    (if outcome x1 \<noteq> Returns None then (outcome x1, after x1, trace x1 @ close)
     else if outcome x2 \<noteq> Returns None then (outcome x2, after x2, trace x1 @ trace x2 @ close)
     else if outcome x3 \<noteq> Returns None then
       (outcome x3, after x3, trace x1 @ trace x2 @ trace x3 @ close)
     else if outcome x4 \<noteq> Returns None then
       (outcome x4, after x4, trace x1 @ trace x2 @ trace x3 @ trace x4 @ close)
     else if outcome x5 \<noteq> Returns None then
       (outcome x5, after x5, trace x1 @ trace x2 @ trace x3 @ trace x4 @ trace x5 @ close)
     else (outcome x6, after x6,
           trace x1 @ trace x2 @ trace x3 @ trace x4 @ trace x5 @ trace x6 @ close))"
    unfolding res_def x1_def x2_def x3_def x4_def x5_def x6_def close_def
    by (rule Create_unfold)
  have e1: "\<not> isPush ev \<and> \<not> isPRCreate ev \<and> \<not> isPRMerge ev" if "ev \<in> set (trace x1)" for ev
    using that Clone_events unfolding x1_def by blast
  have e2: "\<not> isPRCreate ev \<and> \<not> isPRMerge ev" if "ev \<in> set (trace x2)" for ev
    using that PushCommit_events unfolding x2_def by blast
  have e3: "\<not> isPRMerge ev" if "ev \<in> set (trace x3)" for ev
    using that RaisePR_events unfolding x3_def by fastforce
  have e4: "\<not> isPRMerge ev" if "ev \<in> set (trace x4)" for ev
    using that WaitForPR_events unfolding x4_def by blast
  have ec: "\<not> isPush ev \<and> \<not> isPRCreate ev \<and> \<not> isPRMerge ev" if "ev \<in> set close" for ev
    using that by (auto simp: close_def)
  have last: "\<exists>t'. trace res = t' @ close"
    by (simp add: u)
  have o1: "(\<exists>ev \<in> set (trace res). isPush ev) \<longrightarrow> outcome x1 = Returns None"
    using e1 ec by (auto simp: u)
  have o2: "(\<exists>ev \<in> set (trace res). isPRCreate ev) \<longrightarrow>
         outcome x1 = Returns None \<and> outcome x2 = Returns None"
    using e1 e2 ec by (auto simp: u)
  have o3: "(\<exists>ev \<in> set (trace res). isPRMerge ev) \<longrightarrow>
         outcome x1 = Returns None \<and> outcome x2 = Returns None \<and> outcome x3 = Returns None \<and>
         outcome x4 = Returns None"
    using e1 e2 e3 e4 ec by (auto simp: u)
  show ?thesis
    by (intro conjI last o1 o2 o3) (simp_all add: u)
qed

theorem Create_stops_at_first_failure_witness:
  "outcome (Clone (happy\<lparr>git_Clone := (Some 1, Some (Foreign ''authentication required''))\<rparr>) fresh)
     = Returns (Some (Foreign ''authentication required''))
   \<and> Create (happy\<lparr>git_Clone := (Some 1, Some (Foreign ''authentication required''))\<rparr>)
        ''feature'' ''main'' ''ci'' ''ci'' fn0 fresh
     = (Returns (Some (Foreign ''authentication required'')), cloned,
        [EvChroot ''.git'', EvClone ''https://github.com/octocat/Hello-World'' 1 auth0,
         EvRemoveAll ''repo_42''])
   \<and> outcome (WaitForPR (happy\<lparr>statuses_Head := always (Some [ciStatus ''failure''], None)\<rparr>)
        ''ci'' raised)
     = Returns (Some errStatusFailed)
   \<and> Create (happy\<lparr>statuses_Head := always (Some [ciStatus ''failure''], None)\<rparr>)
        ''feature'' ''main'' ''ci'' ''ci'' fn0 fresh
     = (Returns (Some errStatusFailed), raised,
        [EvChroot ''.git'', EvClone ''https://github.com/octocat/Hello-World'' 1 auth0,
         EvHead, EvSetReference ''refs/heads/feature'' ''0f0f0f'', EvWorktree,
         EvCheckout ''refs/heads/feature'', EvUpdateFunc 1,
         EvCommit ''bump'' (sig0\<lparr>When := noon\<rparr>),
         EvSetReference ''refs/remotes/origin/feature'' ''0f0f0f'', EvPush auth0,
         EvPRCreate ''octocat'' ''Hello-World'' ''test'' ''feature'' ''main'' [],
         EvPRGet ''octocat'' ''Hello-World'' 7,
         EvListStatuses ''octocat'' ''Hello-World'' ''a1b2c3'' 20,
         EvRemoveAll ''repo_42''])"
  using Create_stops_at_first_failure
          [where w = "happy\<lparr>git_Clone := (Some 1, Some (Foreign ''authentication required''))\<rparr>"
             and g = fresh and b = "''feature''" and fn = fn0 and t = "''main''"
             and cp = "''ci''" and cm = "''ci''"]
        Create_stops_at_first_failure
          [where w = "happy\<lparr>statuses_Head := always (Some [ciStatus ''failure''], None)\<rparr>"
             and g = fresh and b = "''feature''" and fn = fn0 and t = "''main''"
             and cp = "''ci''" and cm = "''ci''"]
  by (simp add: happy_def fresh_def cloned_def raised_def fn0_def sig0_def pr7_def
        always_def ciStatus_def Clone_def PushCommit_def RaisePR_def WaitForPR_def
        waitForStatus_def pollLoop.simps classify_def GetContext_def GetState_def deadline_def
        pollInterval_def zeroTime_def Time_Equal_def)

text \<open>
  C10. Every request to create a pull request that a run of \<open>Create\<close> makes has the title
  \<open>test\<close> and an empty body, and is for the branch names given to \<open>Create\<close> in the
  instance's own repository, whatever the world, the status contexts and the callback; a run
  whose clone and push return nil makes that request.
\<close>

theorem Create_pull_request_text:
  "(\<forall>ev \<in> set (trace (Create w b t cp cm fn g)).
      isPRCreate ev \<longrightarrow> ev = EvPRCreate (owner g) (repo g) ''test'' b t [])
   \<and> (outcome (Clone w g) = Returns None \<and>
      outcome (PushCommit w b fn (after (Clone w g))) = Returns None \<longrightarrow>
      EvPRCreate (owner g) (repo g) ''test'' b t [] \<in> set (trace (Create w b t cp cm fn g)))"
proof (intro conjI ballI impI)
  fix ev
  assume "ev \<in> set (trace (Create w b t cp cm fn g))" and "isPRCreate ev"
  then show "ev = EvPRCreate (owner g) (repo g) ''test'' b t []"
    using Create_events [of ev w b t cp cm fn g] Clone_events [of ev w g]
      PushCommit_events [of ev w b fn] WaitForPR_events [of ev w cp]
      MergePR_events [of ev w] WaitForMergeCommit_events [of ev w cm]
    by (auto simp: sameTarget_def RaisePR_trace)
next
  assume ok: "outcome (Clone w g) = Returns None \<and>
      outcome (PushCommit w b fn (after (Clone w g))) = Returns None"
  have own: "owner (after (PushCommit w b fn (after (Clone w g)))) = owner g"
       "repo (after (PushCommit w b fn (after (Clone w g)))) = repo g"
    using Clone_frame [of g w] by (simp_all add: PushCommit_frame sameTarget_def)
  show "EvPRCreate (owner g) (repo g) ''test'' b t [] \<in> set (trace (Create w b t cp cm fn g))"
    using ok by (simp add: Create_unfold RaisePR_trace own)
qed

theorem Create_pull_request_text_witness:
  "outcome (Clone happy fresh) = Returns None
   \<and> outcome (PushCommit happy ''hotfix'' fn0 (after (Clone happy fresh))) = Returns None
   \<and> EvPRCreate ''octocat'' ''Hello-World'' ''test'' ''hotfix'' ''release'' []
        \<in> set (trace (Create happy ''hotfix'' ''release'' ''ci'' ''lint'' fn0 fresh))"
  using Create_pull_request_text [of happy "''hotfix''" "''release''" "''ci''" "''lint''" fn0 fresh]
  by (simp add: happy_def fresh_def fn0_def Clone_def PushCommit_def)

section \<open>Waiting for a status\<close>

text \<open>
  C1, as the code has it. Take a wait in which the answers to the requests before number
  \<open>k\<close> all made the loop go round again, and look at the answer to request \<open>k\<close>;
  \<open>arrival fd k\<close> is the time, counted from the start of the wait, at which that answer is
  there. The entry that decides its page is the first entry, in the order of the page, that
  has the requested context and a terminal state (\<open>success\<close>, \<open>failure\<close> or \<open>error\<close>).
  \<^item> If the answer comes before the 60 minutes are over and the deciding entry has state
    \<open>success\<close>, the wait returns nil.
  \<^item> If the deciding entry has state \<open>failure\<close> or \<open>error\<close>, the wait returns the error
    "target status check is in a failed state, aborting".
  \<^item> If the page is nil or has no deciding entry (no entry has the requested context, or all
    those that have it are in some other state), the wait goes on with the next request.
  \<^item> If the request itself fails, the wait returns that error at once: the failed request is
    the last one made.
  \<^item> If no answer that comes before the deadline ends the loop, the wait returns the error
    "timed out waiting for PR to become mergeable", which is another error than the one for a
    failed check.
  On a page with one entry of the requested context the deciding entry is that entry when its
  state is terminal, and there is none otherwise.
\<close>

theorem waitForStatus_verdict:
  fixes fd tie sha ow re c k
  defines "ev \<equiv> EvListStatuses ow re sha 20"
  defines "wait \<equiv> waitForStatus fd tie sha ow re c"
  assumes earlier: "\<forall>j<k. classify (snd (fd j)) c = KeepPolling"
  shows "(arrival fd k < deadline \<and> snd (fd k) = (Some ss, None) \<and> decisive ss c = Some s \<and>
          GetState s = ''success'' \<longrightarrow>
            wait = (None, replicate (Suc k) ev))
    \<and> (arrival fd k < deadline \<and> snd (fd k) = (Some ss, None) \<and> decisive ss c = Some s \<and>
          (GetState s = ''failure'' \<or> GetState s = ''error'') \<longrightarrow>
            wait = (Some errStatusFailed, replicate (Suc k) ev))
    \<and> (arrival fd k \<le> deadline \<and>
          (snd (fd k) = (None, None) \<or> snd (fd k) = (Some ss, None) \<and> decisive ss c = None) \<longrightarrow>
            wait = (case pollLoop fd tie c (Suc k) (arrival fd k) of
                      (r, n) \<Rightarrow> (r, replicate (n + Suc k) ev)))
    \<and> (arrival fd k < deadline \<and> snd (fd k) = (sts, Some e) \<longrightarrow>
            wait = (Some e, replicate (Suc k) ev))
    \<and> ((\<forall>j. arrival fd j < deadline \<or> (arrival fd j = deadline \<and> tie) \<longrightarrow>
             classify (snd (fd j)) c = KeepPolling) \<longrightarrow>
            fst wait = Some errTimedOut)
    \<and> errTimedOut \<noteq> errStatusFailed
    \<and> (filter (\<lambda>s. GetContext s = c) ss = [s] \<longrightarrow>
          decisive ss c = (if terminal (GetState s) then Some s else None))
    \<and> (filter (\<lambda>s. GetContext s = c) ss = [] \<longrightarrow> decisive ss c = None)"
proof -
  have success: "wait = (None, replicate (Suc k) ev)"
    if "arrival fd k < deadline" "snd (fd k) = (Some ss, None)" "decisive ss c = Some s"
       "GetState s = ''success''"
  proof -
    have "classify (snd (fd k)) c = Resolved None"
      using that by (simp add: classify_page)
    then show ?thesis
      using pollLoop_resolved [OF earlier that(1), of None tie]
      by (simp add: wait_def waitForStatus_def ev_def)
  qed
  have failed: "wait = (Some errStatusFailed, replicate (Suc k) ev)"
    if "arrival fd k < deadline" "snd (fd k) = (Some ss, None)" "decisive ss c = Some s"
       "GetState s = ''failure'' \<or> GetState s = ''error''"
  proof -
    have "classify (snd (fd k)) c = Resolved (Some errStatusFailed)"
      using that by (auto simp: classify_page)
    then show ?thesis
      using pollLoop_resolved [OF earlier that(1), of "Some errStatusFailed" tie]
      by (simp add: wait_def waitForStatus_def ev_def)
  qed
  have goes_on: "wait = (case pollLoop fd tie c (Suc k) (arrival fd k) of
                      (r, n) \<Rightarrow> (r, replicate (n + Suc k) ev))"
    if "arrival fd k \<le> deadline"
       "snd (fd k) = (None, None) \<or> snd (fd k) = (Some ss, None) \<and> decisive ss c = None"
  proof -
    have "classify (snd (fd k)) c = KeepPolling"
      using that(2) by (auto simp: classify_page) (simp add: classify_def)
    then show ?thesis
      using pollLoop_continues [OF earlier that(1), of tie]
      by (simp add: wait_def waitForStatus_def ev_def split: prod.splits)
  qed
  have transport: "wait = (Some e, replicate (Suc k) ev)"
    if "arrival fd k < deadline" "snd (fd k) = (sts, Some e)"
  proof -
    have "classify (snd (fd k)) c = Resolved (Some e)"
      using that(2) by (simp add: classify_def split: option.splits)
    then show ?thesis
      using pollLoop_resolved [OF earlier that(1), of "Some e" tie]
      by (simp add: wait_def waitForStatus_def ev_def)
  qed
  have timeout: "fst wait = Some errTimedOut"
    if "\<forall>j. arrival fd j < deadline \<or> (arrival fd j = deadline \<and> tie) \<longrightarrow>
             classify (snd (fd j)) c = KeepPolling"
    using pollLoop_times_out [OF that]
    by (cases "pollLoop fd tie c 0 0") (simp add: wait_def waitForStatus_def)
  have distinct: "errTimedOut \<noteq> errStatusFailed"
    by (simp add: errTimedOut_def errStatusFailed_def)
  show ?thesis
    using success failed goes_on transport timeout distinct
      decisive_single [of c ss s] decisive_no_match [of c ss]
    by blast
qed

theorem waitForStatus_verdict_witness:
  "waitForStatus (pendingThen (Some [lintStatus ''failure'', ciStatus ''success''], None)) False
      ''a1b2c3'' ''octocat'' ''Hello-World'' ''ci''
     = (None, [EvListStatuses ''octocat'' ''Hello-World'' ''a1b2c3'' 20,
         EvListStatuses ''octocat'' ''Hello-World'' ''a1b2c3'' 20])
   \<and> waitForStatus (pendingThen (Some [ciStatus ''error''], None)) False
      ''a1b2c3'' ''octocat'' ''Hello-World'' ''ci''
     = (Some errStatusFailed, [EvListStatuses ''octocat'' ''Hello-World'' ''a1b2c3'' 20,
         EvListStatuses ''octocat'' ''Hello-World'' ''a1b2c3'' 20])
   \<and> waitForStatus (pendingThen (None, Some (Foreign ''connection reset''))) False
      ''a1b2c3'' ''octocat'' ''Hello-World'' ''ci''
     = (Some (Foreign ''connection reset''),
        [EvListStatuses ''octocat'' ''Hello-World'' ''a1b2c3'' 20,
         EvListStatuses ''octocat'' ''Hello-World'' ''a1b2c3'' 20])
   \<and> fst (waitForStatus (always (Some [lintStatus ''success'', ciStatus ''pending''], None)) True
      ''a1b2c3'' ''octocat'' ''Hello-World'' ''ci'')
     = Some errTimedOut
   \<and> decisive [lintStatus ''failure'', ciStatus ''success''] ''ci'' = Some (ciStatus ''success'')"
proof -
  let ?ev = "EvListStatuses ''octocat'' ''Hello-World'' ''a1b2c3'' 20"
  note defs = pendingThen_def always_def ciStatus_def lintStatus_def classify_def
        GetContext_def GetState_def decisive_def terminal_def arrival_def deadline_def
        pollInterval_def
  have passes: "waitForStatus (pendingThen (Some [lintStatus ''failure'', ciStatus ''success''], None))
      False ''a1b2c3'' ''octocat'' ''Hello-World'' ''ci'' = (None, [?ev, ?ev])"
    using waitForStatus_verdict
          [where fd = "pendingThen (Some [lintStatus ''failure'', ciStatus ''success''], None)"
             and k = "Suc 0" and c = "''ci''" and tie = False
             and ss = "[lintStatus ''failure'', ciStatus ''success'']" and s = "ciStatus ''success''"
             and sts = None and e = "Foreign []"
             and sha = "''a1b2c3''" and ow = "''octocat''" and re = "''Hello-World''"]
    by (simp add: defs)
  have fails: "waitForStatus (pendingThen (Some [ciStatus ''error''], None)) False
      ''a1b2c3'' ''octocat'' ''Hello-World'' ''ci'' = (Some errStatusFailed, [?ev, ?ev])"
    using waitForStatus_verdict
          [where fd = "pendingThen (Some [ciStatus ''error''], None)"
             and k = "Suc 0" and c = "''ci''" and tie = False
             and ss = "[ciStatus ''error'']" and s = "ciStatus ''error''"
             and sts = None and e = "Foreign []"
             and sha = "''a1b2c3''" and ow = "''octocat''" and re = "''Hello-World''"]
    by (simp add: defs)
  have transport: "waitForStatus (pendingThen (None, Some (Foreign ''connection reset''))) False
      ''a1b2c3'' ''octocat'' ''Hello-World'' ''ci''
     = (Some (Foreign ''connection reset''), [?ev, ?ev])"
    using waitForStatus_verdict
          [where fd = "pendingThen (None, Some (Foreign ''connection reset''))"
             and k = "Suc 0" and c = "''ci''" and tie = False
             and sts = None and e = "Foreign ''connection reset''" and ss = "[]" and s = None
             and sha = "''a1b2c3''" and ow = "''octocat''" and re = "''Hello-World''"]
    by (simp add: defs)
  have timeout: "fst (waitForStatus (always (Some [lintStatus ''success'', ciStatus ''pending''], None))
      True ''a1b2c3'' ''octocat'' ''Hello-World'' ''ci'') = Some errTimedOut"
    using waitForStatus_verdict
          [where fd = "always (Some [lintStatus ''success'', ciStatus ''pending''], None)"
             and k = 0 and c = "''ci''" and tie = True
             and ss = "[]" and s = None and sts = None and e = "Foreign []"
             and sha = "''a1b2c3''" and ow = "''octocat''" and re = "''Hello-World''"]
    by (simp add: defs)
  have "decisive [lintStatus ''failure'', ciStatus ''success''] ''ci'' = Some (ciStatus ''success'')"
    by (simp add: defs)
  with passes fails transport timeout show ?thesis
    by blast
qed

text \<open>
  C1, as the specification words it, fails on a page with two entries for the requested
  context \<open>ci\<close>, the first \<open>queued\<close> and the second \<open>failure\<close>: the entry matching
  the requested name is in another state than \<open>success\<close>, \<open>failure\<close> and \<open>error\<close>, so
  the wait should go on polling, but the loop reads on to the second entry and the wait
  returns the failed-check error after this one request.
\<close>

theorem other_state_counterexample:
  "GetContext (ciStatus ''queued'') = ''ci''
   \<and> GetState (ciStatus ''queued'') \<noteq> ''success''
   \<and> GetState (ciStatus ''queued'') \<noteq> ''failure''
   \<and> GetState (ciStatus ''queued'') \<noteq> ''error''
   \<and> find (\<lambda>s. GetContext s = ''ci'')
         [lintStatus ''success'', ciStatus ''queued'', ciStatus ''failure'']
       = Some (ciStatus ''queued'')
   \<and> classify (Some [lintStatus ''success'', ciStatus ''queued'', ciStatus ''failure''], None) ''ci''
       = Resolved (Some errStatusFailed)
   \<and> classify (Some [lintStatus ''success'', ciStatus ''queued'', ciStatus ''failure''], None) ''ci''
       \<noteq> KeepPolling
   \<and> waitForStatus
         (always (Some [lintStatus ''success'', ciStatus ''queued'', ciStatus ''failure''], None))
         False ''a1b2c3'' ''octocat'' ''Hello-World'' ''ci''
       = (Some errStatusFailed, [EvListStatuses ''octocat'' ''Hello-World'' ''a1b2c3'' 20])"
  by (simp add: ciStatus_def lintStatus_def GetContext_def GetState_def
        waitForStatus_def pollLoop.simps always_def classify_def deadline_def pollInterval_def)

text \<open>
  C3, as the code has it. The verdict on a page is the verdict on the entry that decides it:
  the first entry, in the order of the page, that has the requested context and a terminal
  state (\<open>success\<close>, \<open>failure\<close> or \<open>error\<close>). Entries with the requested context and
  another state are passed over, and the entries after them are still read. If no entry has
  the requested context and a terminal state, the wait goes on. The wait returns what that
  entry says when its page is the first to end the loop and comes before the deadline.
\<close>

theorem scanStatuses_first_terminal_match:
  "classify (Some ss, None) c =
     (case decisive ss c of
        None \<Rightarrow> KeepPolling
      | Some s \<Rightarrow> Resolved (if GetState s = ''success'' then None else Some errStatusFailed))
   \<and> (decisive ss c = Some s \<longleftrightarrow>
        (\<exists>before rest. ss = before @ s # rest \<and> GetContext s = c \<and> terminal (GetState s) \<and>
           (\<forall>s' \<in> set before. \<not> (GetContext s' = c \<and> terminal (GetState s')))))
   \<and> (decisive ss c = None \<longleftrightarrow>
        (\<forall>s' \<in> set ss. \<not> (GetContext s' = c \<and> terminal (GetState s'))))
   \<and> ((\<forall>j<k. classify (snd (fd j)) c = KeepPolling) \<and> arrival fd k < deadline \<and>
       snd (fd k) = (Some ss, None) \<and> decisive ss c = Some s \<longrightarrow>
        fst (waitForStatus fd tie sha ow re c) =
          (if GetState s = ''success'' then None else Some errStatusFailed))"
proof (intro conjI impI)
  show "classify (Some ss, None) c =
     (case decisive ss c of
        None \<Rightarrow> KeepPolling
      | Some s \<Rightarrow> Resolved (if GetState s = ''success'' then None else Some errStatusFailed))"
    by (rule classify_page)
next
  show "decisive ss c = Some s \<longleftrightarrow>
        (\<exists>before rest. ss = before @ s # rest \<and> GetContext s = c \<and> terminal (GetState s) \<and>
           (\<forall>s' \<in> set before. \<not> (GetContext s' = c \<and> terminal (GetState s'))))"
    unfolding decisive_def
    by (subst find_Some_split) blast
next
  show "decisive ss c = None \<longleftrightarrow>
        (\<forall>s' \<in> set ss. \<not> (GetContext s' = c \<and> terminal (GetState s')))"
    by (auto simp: decisive_def find_None_iff)
next
  assume h: "(\<forall>j<k. classify (snd (fd j)) c = KeepPolling) \<and> arrival fd k < deadline \<and>
       snd (fd k) = (Some ss, None) \<and> decisive ss c = Some s"
  then have "classify (snd (fd k)) c =
      Resolved (if GetState s = ''success'' then None else Some errStatusFailed)"
    by (simp add: classify_page)
  then have "pollLoop fd tie c 0 0 =
      (if GetState s = ''success'' then None else Some errStatusFailed, Suc k)"
    using h pollLoop_resolved [of k fd c _ tie] by blast
  then show "fst (waitForStatus fd tie sha ow re c) =
          (if GetState s = ''success'' then None else Some errStatusFailed)"
    by (simp add: waitForStatus_def)
qed

theorem scanStatuses_first_terminal_match_witness:
  "decisive [ciStatus ''pending'', lintStatus ''failure'', ciStatus ''error'', ciStatus ''success'']
      ''ci'' = Some (ciStatus ''error'')
   \<and> classify (Some [ciStatus ''pending'', lintStatus ''failure'', ciStatus ''error'',
                     ciStatus ''success''], None) ''ci''
     = Resolved (Some errStatusFailed)
   \<and> arrival (always (Some [ciStatus ''pending'', lintStatus ''failure'', ciStatus ''error'',
                            ciStatus ''success''], None)) 0 < deadline
   \<and> fst (waitForStatus
           (always (Some [ciStatus ''pending'', lintStatus ''failure'', ciStatus ''error'',
                          ciStatus ''success''], None))
           False ''a1b2c3'' ''octocat'' ''Hello-World'' ''ci'')
     = Some errStatusFailed
   \<and> decisive [ciStatus ''pending'', lintStatus ''failure''] ''ci'' = None"
proof -
  note defs = always_def ciStatus_def lintStatus_def GetContext_def GetState_def
    arrival_def deadline_def pollInterval_def
  have d: "decisive [ciStatus ''pending'', lintStatus ''failure'', ciStatus ''error'',
      ciStatus ''success''] ''ci'' = Some (ciStatus ''error'')"
    by (simp add: decisive_def terminal_def defs)
  have n: "\<forall>s' \<in> set [ciStatus ''pending'', lintStatus ''failure''].
      \<not> (GetContext s' = ''ci'' \<and> terminal (GetState s'))"
    by (simp add: terminal_def defs)
  have a: "arrival (always (Some [ciStatus ''pending'', lintStatus ''failure'', ciStatus ''error'',
      ciStatus ''success''], None)) 0 < deadline"
    by (simp add: defs)
  note t1 = scanStatuses_first_terminal_match
     [where ss = "[ciStatus ''pending'', lintStatus ''failure'', ciStatus ''error'',
                   ciStatus ''success'']"
        and c = "''ci''" and s = "ciStatus ''error''" and k = 0
        and fd = "always (Some [ciStatus ''pending'', lintStatus ''failure'', ciStatus ''error'',
                                 ciStatus ''success''], None)"
        and tie = False and sha = "''a1b2c3''" and ow = "''octocat''" and re = "''Hello-World''"]
  note t2 = scanStatuses_first_terminal_match
     [where ss = "[ciStatus ''pending'', lintStatus ''failure'']" and c = "''ci''"]
  have c: "classify (Some [ciStatus ''pending'', lintStatus ''failure'', ciStatus ''error'',
      ciStatus ''success''], None) ''ci'' = Resolved (Some errStatusFailed)"
    using t1 d by (simp add: defs)
  have w: "fst (waitForStatus
      (always (Some [ciStatus ''pending'', lintStatus ''failure'', ciStatus ''error'',
                     ciStatus ''success''], None))
      False ''a1b2c3'' ''octocat'' ''Hello-World'' ''ci'') = Some errStatusFailed"
  proof -
    have "snd (always (Some [ciStatus ''pending'', lintStatus ''failure'', ciStatus ''error'',
        ciStatus ''success''], None) 0)
      = (Some [ciStatus ''pending'', lintStatus ''failure'', ciStatus ''error'',
               ciStatus ''success''], None)"
      by (simp add: always_def)
    moreover have "GetState (ciStatus ''error'') \<noteq> ''success''"
      by (simp add: defs)
    ultimately show ?thesis
      using t1 d a by simp
  qed
  have "decisive [ciStatus ''pending'', lintStatus ''failure''] ''ci'' = None"
    using t2 n by blast
  with d c a w show ?thesis
    by blast
qed

text \<open>
  C3, as the specification words it, fails on a page whose first entry for \<open>ci\<close> is
  \<open>pending\<close> and whose second is \<open>success\<close>: the first entry with the requested context
  is not terminal, so by the specification's tie-break the wait would go on, but the loop reads
  on, meets the second entry, and the wait returns nil after this one request.
\<close>

theorem first_match_counterexample:
  "find (\<lambda>s. GetContext s = ''ci'') [ciStatus ''pending'', ciStatus ''success'']
     = Some (ciStatus ''pending'')
   \<and> \<not> terminal (GetState (ciStatus ''pending''))
   \<and> firstMatchVerdict [ciStatus ''pending'', ciStatus ''success''] ''ci'' = KeepPolling
   \<and> scanStatuses [ciStatus ''pending'', ciStatus ''success''] ''ci'' = Resolved None
   \<and> waitForStatus (always (Some [ciStatus ''pending'', ciStatus ''success''], None)) False
        ''a1b2c3'' ''octocat'' ''Hello-World'' ''ci''
      = (None, [EvListStatuses ''octocat'' ''Hello-World'' ''a1b2c3'' 20])"
  by (simp add: firstMatchVerdict_def ciStatus_def GetContext_def GetState_def terminal_def
        waitForStatus_def pollLoop.simps always_def classify_def deadline_def pollInterval_def)

section \<open>PushCommit and the error of Checkout\<close>

text \<open>
  C4. The value \<open>Checkout\<close> returns (line 166) is not looked at, so what \<open>PushCommit\<close>
  does and returns is the same whether \<open>Checkout\<close> fails or not. In a world where
  \<open>Checkout\<close> fails and every other call succeeds, \<open>PushCommit\<close> goes on to call the
  callback, commits, pushes, and returns nil.
\<close>

theorem PushCommit_drops_Checkout_error:
  "PushCommit (w\<lparr>worktree_Checkout := Some e\<rparr>) b fn g = PushCommit w b fn g
   \<and> PushCommit (happy\<lparr>worktree_Checkout := Some (Foreign ''worktree contains unstaged changes'')\<rparr>)
        ''feature'' fn0 cloned
      = (Returns None, cloned,
         [EvHead, EvSetReference ''refs/heads/feature'' ''0f0f0f'', EvWorktree,
          EvCheckout ''refs/heads/feature'', EvUpdateFunc 1,
          EvCommit ''bump'' (sig0\<lparr>When := noon\<rparr>),
          EvSetReference ''refs/remotes/origin/feature'' ''0f0f0f'', EvPush auth0])"
proof
  show "PushCommit (w\<lparr>worktree_Checkout := Some e\<rparr>) b fn g = PushCommit w b fn g"
    by (simp add: PushCommit_def Let_def split: option.splits sum.splits prod.splits)
next
  show "PushCommit (happy\<lparr>worktree_Checkout := Some (Foreign ''worktree contains unstaged changes'')\<rparr>)
        ''feature'' fn0 cloned
      = (Returns None, cloned,
         [EvHead, EvSetReference ''refs/heads/feature'' ''0f0f0f'', EvWorktree,
          EvCheckout ''refs/heads/feature'', EvUpdateFunc 1,
          EvCommit ''bump'' (sig0\<lparr>When := noon\<rparr>),
          EvSetReference ''refs/remotes/origin/feature'' ''0f0f0f'', EvPush auth0])"
    by (simp add: PushCommit_def happy_def cloned_def fresh_def fn0_def sig0_def zeroTime_def
          Time_Equal_def)
qed

section \<open>The repository name\<close>

text \<open>
  C8, as the code has it. A name matches the pattern of line 84 exactly when it is \<open>u/v\<close>
  with \<open>u\<close> and \<open>v\<close> not empty and free of \<open>/\<close>. For such a name the split gives the
  two components \<open>u\<close> and \<open>v\<close>, and \<open>makeGithubPR\<close> goes on to create the temporary
  directory and to chroot into it: if both succeed it returns an instance with owner \<open>u\<close>
  and repository \<open>v\<close>; if one of them fails it returns that error. For every other name
  \<open>makeGithubPR\<close> returns the error "invalid repository name supplied" and has asked
  nothing of the filesystem or the network.
\<close>

theorem makeGithubPR_repository_name:
  "(MatchString repoNamePattern n \<longleftrightarrow>
      (\<exists>u v. n = u @ CHR ''/'' # v \<and> u \<noteq> [] \<and> v \<noteq> [] \<and>
             CHR ''/'' \<notin> set u \<and> CHR ''/'' \<notin> set v))
   \<and> (n = u @ CHR ''/'' # v \<and> u \<noteq> [] \<and> v \<noteq> [] \<and> CHR ''/'' \<notin> set u \<and> CHR ''/'' \<notin> set v \<longrightarrow>
        Split n CHR ''/'' = [u, v]
        \<and> (util_TempDir w = Inr d \<and> fs_ChrootTemp w = None \<longrightarrow>
             makeGithubPR w n creds =
               (Returns (Inr \<lparr>auth = \<lparr>auth_Username = Username creds,
                                       auth_Password = Token creds\<rparr>,
                               filesystem = d, mergeSHA = [], path = d, pr = 0, gitRepo = None,
                               owner = u, repo = v\<rparr>),
                [EvTempDir ''.'' ''repo_'', EvChroot d]))
        \<and> (util_TempDir w = Inl e \<longrightarrow>
             makeGithubPR w n creds = (Returns (Inl e), [EvTempDir ''.'' ''repo_'']))
        \<and> (util_TempDir w = Inr d \<and> fs_ChrootTemp w = Some e \<longrightarrow>
             makeGithubPR w n creds =
               (Returns (Inl e), [EvTempDir ''.'' ''repo_'', EvChroot d])))
   \<and> (\<not> MatchString repoNamePattern n \<longrightarrow>
        makeGithubPR w n creds =
          (Returns (Inl (errors_New ''invalid repository name supplied'')), []))"
proof (intro conjI impI)
  show "MatchString repoNamePattern n \<longleftrightarrow>
      (\<exists>u v. n = u @ CHR ''/'' # v \<and> u \<noteq> [] \<and> v \<noteq> [] \<and>
             CHR ''/'' \<notin> set u \<and> CHR ''/'' \<notin> set v)"
    by (rule repoName_iff)
next
  assume "\<not> MatchString repoNamePattern n"
  then show "makeGithubPR w n creds =
      (Returns (Inl (errors_New ''invalid repository name supplied'')), [])"
    by (simp add: makeGithubPR_def)
next
  assume h: "n = u @ CHR ''/'' # v \<and> u \<noteq> [] \<and> v \<noteq> [] \<and> CHR ''/'' \<notin> set u \<and> CHR ''/'' \<notin> set v"
  then show sp: "Split n CHR ''/'' = [u, v]"
    by (simp add: Split_two)
  have m: "MatchString repoNamePattern n"
    using h repoName_iff [of n] by blast
  {
    assume "util_TempDir w = Inr d \<and> fs_ChrootTemp w = None"
    then show "makeGithubPR w n creds =
               (Returns (Inr \<lparr>auth = \<lparr>auth_Username = Username creds,
                                       auth_Password = Token creds\<rparr>,
                               filesystem = d, mergeSHA = [], path = d, pr = 0, gitRepo = None,
                               owner = u, repo = v\<rparr>),
                [EvTempDir ''.'' ''repo_'', EvChroot d])"
      using m sp by (simp add: makeGithubPR_def index_def)
  }
  {
    assume "util_TempDir w = Inl e"
    then show "makeGithubPR w n creds = (Returns (Inl e), [EvTempDir ''.'' ''repo_''])"
      using m sp by (simp add: makeGithubPR_def index_def)
  }
  {
    assume "util_TempDir w = Inr d \<and> fs_ChrootTemp w = Some e"
    then show "makeGithubPR w n creds =
               (Returns (Inl e), [EvTempDir ''.'' ''repo_'', EvChroot d])"
      using m sp by (simp add: makeGithubPR_def index_def)
  }
qed

theorem makeGithubPR_repository_name_witness:
  "MatchString repoNamePattern ''octocat/Hello-World''
   \<and> Split ''octocat/Hello-World'' CHR ''/'' = [''octocat'', ''Hello-World'']
   \<and> makeGithubPR happy ''octocat/Hello-World'' creds0
      = (Returns (Inr fresh), [EvTempDir ''.'' ''repo_'', EvChroot ''repo_42''])
   \<and> \<not> MatchString repoNamePattern ''octocat''
   \<and> makeGithubPR happy ''octocat'' creds0
      = (Returns (Inl (errors_New ''invalid repository name supplied'')), [])"
proof -
  note t = makeGithubPR_repository_name
    [where n = "''octocat/Hello-World''" and u = "''octocat''" and v = "''Hello-World''"
       and w = happy and d = "''repo_42''" and creds = creds0 and e = "Foreign []"]
  have "\<exists>u v. ''octocat/Hello-World'' = u @ CHR ''/'' # v \<and> u \<noteq> [] \<and> v \<noteq> [] \<and>
      CHR ''/'' \<notin> set u \<and> CHR ''/'' \<notin> set v"
    by (rule exI [of _ "''octocat''"], rule exI [of _ "''Hello-World''"]) simp
  then have m: "MatchString repoNamePattern ''octocat/Hello-World''"
    using t [THEN conjunct1] by (rule iffD2 [rotated])
  have s: "Split ''octocat/Hello-World'' CHR ''/'' = [''octocat'', ''Hello-World'']"
    by simp
  have g: "makeGithubPR happy ''octocat/Hello-World'' creds0
      = (Returns (Inr fresh), [EvTempDir ''.'' ''repo_'', EvChroot ''repo_42''])"
    using t by (simp add: happy_def fresh_def creds0_def auth0_def)
  note t' = makeGithubPR_repository_name
    [where n = "''octocat''" and w = happy and creds = creds0]
  have "\<forall>u v. ''octocat'' \<noteq> u @ CHR ''/'' # v"
  proof (intro allI notI)
    fix u v
    assume "''octocat'' = u @ CHR ''/'' # v"
    then have "CHR ''/'' \<in> set ''octocat''"
      by (metis in_set_conv_decomp)
    then show False
      by simp
  qed
  then have nm: "\<not> MatchString repoNamePattern ''octocat''"
    using t' by blast
  then have "makeGithubPR happy ''octocat'' creds0
      = (Returns (Inl (errors_New ''invalid repository name supplied'')), [])"
    using t' by blast
  with m s g nm show ?thesis
    by blast
qed

text \<open>
  C8, as the specification words it, fails where the name matches and the temporary directory
  cannot be created: construction does not succeed.
\<close>

theorem makeGithubPR_counterexample:
  "MatchString repoNamePattern ''octocat/Hello-World''
   \<and> makeGithubPR (happy\<lparr>util_TempDir := Inl (Foreign ''permission denied'')\<rparr>)
        ''octocat/Hello-World'' creds0
      = (Returns (Inl (Foreign ''permission denied'')), [EvTempDir ''.'' ''repo_''])"
proof -
  have "''octocat/Hello-World'' = ''octocat'' @ CHR ''/'' # ''Hello-World'' \<and> ''octocat'' \<noteq> []
      \<and> ''Hello-World'' \<noteq> [] \<and> CHR ''/'' \<notin> set ''octocat'' \<and> CHR ''/'' \<notin> set ''Hello-World''"
    by simp
  then have m: "MatchString repoNamePattern ''octocat/Hello-World''"
    unfolding repoName_iff by (intro exI)
  have "Split ''octocat/Hello-World'' CHR ''/'' = [''octocat'', ''Hello-World'']"
    by simp
  then show ?thesis
    using m by (simp add: makeGithubPR_def index_def happy_def)
qed

section \<open>The merge commit\<close>

text \<open>
  C7, as the code has it. Take any sequence of calls on an instance, each with any answers of
  the world. After it, \<open>mergeSHA\<close> is the SHA answered to the last merge request of the
  sequence that was answered with one, and is what it was before when there is no such
  request. A call of \<open>MergePR\<close> returns nil exactly when its merge request is answered with
  a SHA. So \<open>mergeSHA\<close> is set by the calls of \<open>MergePR\<close> that succeed and by nothing
  else. Every call of \<open>Clone\<close>, \<open>PushCommit\<close>, \<open>RaisePR\<close>, \<open>WaitForPR\<close>,
  \<open>MergePR\<close>, \<open>WaitForMergeCommit\<close> or \<open>Close\<close> that does not return nil (a
  \<open>MergePR\<close> that finds the pull request not mergeable, or whose merge request fails, among
  them) leaves \<open>mergeSHA\<close> as it was; a run of \<open>Create\<close>, failed or not, changes it only
  when the \<open>MergePR\<close> inside it succeeded. Starting from an instance whose \<open>mergeSHA\<close> is
  empty, and with a host that never answers a merge with an empty SHA, \<open>mergeSHA\<close> is
  non-empty exactly when a merge has succeeded.
\<close>

theorem mergeSHA_set_by_successful_merge:
  "mergeSHA (fst (run cs g)) =
     (case lastMerged (snd (run cs g)) of None \<Rightarrow> mergeSHA g | Some sha \<Rightarrow> sha)
   \<and> (outcome (MergePR w g) = Returns None \<longleftrightarrow> lastMerged (trace (MergePR w g)) \<noteq> None)
   \<and> (\<not> isCreate c \<and> outcome (exec c w g) \<noteq> Returns None \<longrightarrow>
        mergeSHA (after (exec c w g)) = mergeSHA g)
   \<and> (lastMerged (trace (exec c w g)) = None \<longrightarrow> mergeSHA (after (exec c w g)) = mergeSHA g)
   \<and> (mergeSHA g = [] \<and> (\<forall>ev \<in> set (snd (run cs g)). mergedSHA ev \<noteq> Some []) \<longrightarrow>
        (mergeSHA (fst (run cs g)) \<noteq> [] \<longleftrightarrow> lastMerged (snd (run cs g)) \<noteq> None))"
proof (intro conjI impI)
  show "mergeSHA (fst (run cs g)) =
     (case lastMerged (snd (run cs g)) of None \<Rightarrow> mergeSHA g | Some sha \<Rightarrow> sha)"
    by (rule run_tracks)
next
  show "outcome (MergePR w g) = Returns None \<longleftrightarrow> lastMerged (trace (MergePR w g)) \<noteq> None"
    by (rule MergePR_succeeds_iff)
next
  assume "\<not> isCreate c \<and> outcome (exec c w g) \<noteq> Returns None"
  then show "mergeSHA (after (exec c w g)) = mergeSHA g"
    using failed_keeps_mergeSHA by blast
next
  assume "lastMerged (trace (exec c w g)) = None"
  then show "mergeSHA (after (exec c w g)) = mergeSHA g"
    using exec_tracks [of c w g] by (simp add: tracks_def)
next
  assume h: "mergeSHA g = [] \<and> (\<forall>ev \<in> set (snd (run cs g)). mergedSHA ev \<noteq> Some [])"
  have ne: "lastMerged t = Some sha \<Longrightarrow> \<forall>ev \<in> set t. mergedSHA ev \<noteq> Some [] \<Longrightarrow> sha \<noteq> []"
    for t sha
    by (induction t) (auto split: option.splits)
  show "mergeSHA (fst (run cs g)) \<noteq> [] \<longleftrightarrow> lastMerged (snd (run cs g)) \<noteq> None"
    using h ne [of "snd (run cs g)"] run_tracks [of cs g]
    by (auto split: option.splits)
qed


theorem mergeSHA_set_by_successful_merge_witness:
  "mergeSHA fresh = []
   \<and> outcome (MergePR (happy\<lparr>pulls_GetMergeable := Inr (pr7\<lparr>pr_Mergeable := Some False\<rparr>)\<rparr>) raised)
       = Returns (Some errNotMergeable)
   \<and> mergeSHA (after (MergePR (happy\<lparr>pulls_GetMergeable := Inr (pr7\<lparr>pr_Mergeable := Some False\<rparr>)\<rparr>)
                         raised)) = []
   \<and> mergeSHA (fst (run [(CallClone, happy),
                          (CallRaisePR ''feature'' ''main'' ''test'' [], happy),
                          (CallMergePR, happy\<lparr>pulls_Merge := Inl (Foreign ''405 Method Not Allowed'')\<rparr>)]
                      fresh)) = []
   \<and> lastMerged (snd (run [(CallClone, happy),
                          (CallRaisePR ''feature'' ''main'' ''test'' [], happy),
                          (CallMergePR, happy\<lparr>pulls_Merge := Inl (Foreign ''405 Method Not Allowed'')\<rparr>)]
                      fresh)) = None
   \<and> outcome (MergePR happy raised) = Returns None
   \<and> lastMerged (trace (MergePR happy raised)) = Some ''d4e5f6''
   \<and> mergeSHA (fst (run [(CallClone, happy),
                          (CallRaisePR ''feature'' ''main'' ''test'' [], happy),
                          (CallMergePR, happy),
                          (CallWaitForMergeCommit ''ci'',
                           happy\<lparr>statuses_Merge := always (Some [ciStatus ''failure''], None)\<rparr>)]
                      fresh)) = ''d4e5f6''"
  using mergeSHA_set_by_successful_merge
          [where cs = "[(CallClone, happy),
                        (CallRaisePR ''feature'' ''main'' ''test'' [], happy),
                        (CallMergePR, happy\<lparr>pulls_Merge := Inl (Foreign ''405 Method Not Allowed'')\<rparr>)]"
             and g = fresh and c = CallMergePR
             and w = "happy\<lparr>pulls_GetMergeable := Inr (pr7\<lparr>pr_Mergeable := Some False\<rparr>)\<rparr>"]
        mergeSHA_set_by_successful_merge
          [where cs = "[(CallClone, happy),
                        (CallRaisePR ''feature'' ''main'' ''test'' [], happy),
                        (CallMergePR, happy),
                        (CallWaitForMergeCommit ''ci'',
                         happy\<lparr>statuses_Merge := always (Some [ciStatus ''failure''], None)\<rparr>)]"
             and g = fresh and c = CallMergePR and w = happy]
        mergeSHA_set_by_successful_merge
          [where cs = "[]" and g = raised and c = CallMergePR
             and w = "happy\<lparr>pulls_GetMergeable := Inr (pr7\<lparr>pr_Mergeable := Some False\<rparr>)\<rparr>"]
        mergeSHA_set_by_successful_merge
          [where cs = "[]" and g = raised and c = CallMergePR and w = happy]
  by (simp add: happy_def fresh_def cloned_def raised_def pr7_def Clone_def RaisePR_def MergePR_def
        WaitForMergeCommit_def waitForStatus_def pollLoop.simps always_def ciStatus_def
        classify_def GetContext_def GetState_def deadline_def pollInterval_def)

text \<open>
  C7, as the specification words it, fails for \<open>Create\<close>: in a world where everything
  succeeds but the check on the merge commit reports \<open>failure\<close>, \<open>Create\<close> returns an
  error, and the instance, whose \<open>mergeSHA\<close> was empty, now holds the merge commit.
\<close>

theorem failed_Create_counterexample:
  "outcome (Create (happy\<lparr>statuses_Merge := always (Some [ciStatus ''failure''], None)\<rparr>)
              ''feature'' ''main'' ''ci'' ''ci'' fn0 fresh)
     = Returns (Some errStatusFailed)
   \<and> mergeSHA fresh = []
   \<and> mergeSHA (after (Create (happy\<lparr>statuses_Merge := always (Some [ciStatus ''failure''], None)\<rparr>)
                          ''feature'' ''main'' ''ci'' ''ci'' fn0 fresh))
     = ''d4e5f6''"
  by (simp add: Create_unfold happy_def fresh_def fn0_def sig0_def pr7_def
        always_def ciStatus_def Clone_def PushCommit_def RaisePR_def WaitForPR_def MergePR_def
        WaitForMergeCommit_def waitForStatus_def pollLoop.simps classify_def GetContext_def
        GetState_def deadline_def pollInterval_def zeroTime_def Time_Equal_def)

end
